theory Spec2Isabelle
  imports Main "HOL-Library.AList"
begin

section \<open>The selection counter of the history page (js/main.js)\<close>

text \<open>
  The script is one \<^verbatim>\<open>DOMContentLoaded\<close> handler. It looks up the history form, takes a
  snapshot of its \<^verbatim>\<open>log_ids\<close> checkboxes, finds or creates a counter node, writes the
  number of checked boxes into it and installs \<^verbatim>\<open>change\<close> listeners.

  The model keeps the document as the code sees it: a tree of element references, a store
  from references to element data (so that a reference held by the script stays valid
  whatever happens to the tree), the registry of \<^verbatim>\<open>change\<close> listeners, and the list of
  mutations the script has performed on the document.
\<close>

subsection \<open>Strings\<close>

text \<open>
  Selectors, class names, attribute and style values are ASCII and are kept as \<open>string\<close>.
  Displayed text is Russian: it is kept as the list of its UTF-16 code units, which for
  these messages are the Unicode code points of the characters.
\<close>

type_synonym ustring = "nat list"

text \<open>
  What a template literal does to a non-negative integer: its decimal digits, most
  significant first, with no leading zero (\<open>48\<close> is the digit 0).
\<close>

fun toString :: "nat \<Rightarrow> ustring" where
  "toString n = (if n < 10 then [48 + n] else toString (n div 10) @ [48 + n mod 10])"

declare toString.simps [simp del]

text \<open>Reading a digit string back, to say what "decimal" means.\<close>

definition decimal_value :: "ustring \<Rightarrow> nat" where
  "decimal_value ds = foldl (\<lambda>a d. 10 * a + (d - 48)) 0 ds"

subsection \<open>Elements, the document tree and selectors\<close>

type_synonym ref = nat

record element =
  tagName :: string
  ident :: string
  className :: string
  attrs :: "(string \<times> string) list"
  checked :: bool
  style :: "(string \<times> string) list"
  ownText :: ustring

text \<open>
  \<open>ownText\<close> is the text held by the element's own text nodes; \<open>ident\<close> is the \<^verbatim>\<open>id\<close>
  attribute and \<open>attrs\<close> holds the other attributes (\<^verbatim>\<open>type\<close>, \<^verbatim>\<open>name\<close>).
  \<open>checked\<close> is the property of that name; on an element that is not a checkbox it
  stands for the absent property, which reads as false.
\<close>

datatype dom = Node ref "dom list"

fun elements :: "dom \<Rightarrow> ref list" where
  "elements (Node r ks) = r # concat (map elements ks)"

fun subtrees :: "ref \<Rightarrow> dom \<Rightarrow> dom list" where
  "subtrees r (Node x ks) = (if x = r then [Node x ks] else concat (map (subtrees r) ks))"

definition subtree :: "ref \<Rightarrow> dom \<Rightarrow> dom option" where
  "subtree r t = (case subtrees r t of [] \<Rightarrow> None | s # _ \<Rightarrow> Some s)"

fun children :: "dom \<Rightarrow> dom list" where
  "children (Node r ks) = ks"

text \<open>The descendants of an element in document order, the element itself excluded.\<close>

definition descendants :: "ref \<Rightarrow> dom \<Rightarrow> ref list" where
  "descendants r t =
     (case subtree r t of None \<Rightarrow> [] | Some s \<Rightarrow> concat (map elements (children s)))"

fun set_kids :: "ref \<Rightarrow> dom list \<Rightarrow> dom \<Rightarrow> dom" where
  "set_kids r new (Node x ks) =
     (if x = r then Node x new else Node x (map (set_kids r new) ks))"

fun append_kid :: "ref \<Rightarrow> dom \<Rightarrow> dom \<Rightarrow> dom" where
  "append_kid r k (Node x ks) =
     (if x = r then Node x (ks @ [k]) else Node x (map (append_kid r k) ks))"

text \<open>The class attribute is a list of tokens separated by ASCII whitespace.\<close>

definition is_space :: "char \<Rightarrow> bool" where
  "is_space c = (c = CHR 0x20 \<or> c = CHR 0x09 \<or> c = CHR 0x0A \<or> c = CHR 0x0C \<or> c = CHR 0x0D)"

fun tokens_acc :: "string \<Rightarrow> string \<Rightarrow> string list" where
  "tokens_acc acc [] = (if acc = [] then [] else [acc])"
| "tokens_acc acc (c # cs) =
     (if is_space c then (if acc = [] then [] else [acc]) @ tokens_acc [] cs
      else tokens_acc (acc @ [c]) cs)"

definition class_tokens :: "string \<Rightarrow> string list" where
  "class_tokens s = tokens_acc [] s"

text \<open>
  The three shapes of selector the script uses: \<^verbatim>\<open>.c\<close>, \<^verbatim>\<open>#i\<close> and
  \<^verbatim>\<open>tag[a="v"][b="w"]\<close>.
\<close>

datatype selector =
    ClassSel string
  | IdSel string
  | TagAttrSel string "(string \<times> string) list"

text \<open>
  In an HTML document the value of an attribute selector is compared without regard to
  ASCII case for a fixed list of attributes, \<^verbatim>\<open>type\<close> among them, and exactly for the
  others, \<^verbatim>\<open>name\<close> among them. Tag and attribute names are the lower-case names the
  parser gives them.
\<close>

definition ascii_lower :: "char \<Rightarrow> char" where
  "ascii_lower c =
     (case map_of (zip ''ABCDEFGHIJKLMNOPQRSTUVWXYZ'' ''abcdefghijklmnopqrstuvwxyz'') c of
        None \<Rightarrow> c
      | Some l \<Rightarrow> l)"

definition case_insensitive_attrs :: "string list" where
  "case_insensitive_attrs =
     [''accept'', ''accept-charset'', ''align'', ''alink'', ''axis'', ''bgcolor'', ''charset'',
      ''checked'', ''clear'', ''codetype'', ''color'', ''compact'', ''declare'', ''defer'',
      ''dir'', ''direction'', ''disabled'', ''enctype'', ''face'', ''frame'', ''hreflang'',
      ''http-equiv'', ''lang'', ''language'', ''link'', ''media'', ''method'', ''multiple'',
      ''nohref'', ''noresize'', ''noshade'', ''nowrap'', ''readonly'', ''rel'', ''rev'',
      ''rules'', ''scope'', ''scrolling'', ''selected'', ''shape'', ''target'', ''text'',
      ''type'', ''valign'', ''valuetype'', ''vlink'']"

definition attr_value_matches :: "string \<Rightarrow> string \<Rightarrow> string \<Rightarrow> bool" where
  "attr_value_matches a v w =
     (if a \<in> set case_insensitive_attrs then map ascii_lower v = map ascii_lower w
      else v = w)"

fun matches :: "element \<Rightarrow> selector \<Rightarrow> bool" where
  "matches e (ClassSel c) = (c \<in> set (class_tokens (className e)))"
| "matches e (IdSel i) = (ident e = i)"
| "matches e (TagAttrSel t avs) =
     (tagName e = t \<and>
      list_all (\<lambda>(a, v). case map_of (attrs e) a of
                            None \<Rightarrow> False
                          | Some w \<Rightarrow> attr_value_matches a v w) avs)"

subsection \<open>The page\<close>

text \<open>
  The variables the handler's closures capture. A variable that may hold \<^verbatim>\<open>null\<close> is a
  \<open>ref option\<close>.
\<close>

record closure =
  historyForm :: "ref option"
  table :: "ref option"
  checkboxes :: "ref list"
  selectAll :: "ref option"
  counter :: "ref option"

datatype handler = UpdateCounter closure | SelectAllChange closure

datatype mutation =
    CreateElement ref string
  | SetClassName ref string
  | SetStyle ref string string
  | AppendChild ref ref
  | SetChecked ref bool
  | SetTextContent ref ustring

record page =
  tree :: dom
  elems :: "ref \<Rightarrow> element"
  next_ref :: ref
  listeners :: "(ref \<times> handler) list"
  mutations :: "mutation list"

text \<open>
  \<^verbatim>\<open>createElement\<close> returns an object that is not yet in the document: every element of
  the tree is older than the next reference to be handed out.
\<close>

definition refs_allocated :: "page \<Rightarrow> bool" where
  "refs_allocated p = list_all (\<lambda>r. r < next_ref p) (elements (tree p))"

text \<open>The elements a list of mutations has created.\<close>

fun created :: "mutation list \<Rightarrow> ref list" where
  "created [] = []"
| "created (CreateElement r t # ms) = r # created ms"
| "created (m # ms) = created ms"

subsection \<open>Errors\<close>

text \<open>
  The only error this script could raise is the \<^verbatim>\<open>TypeError\<close> of a property access on
  \<^verbatim>\<open>null\<close>. \<open>deref\<close> is that access; \<open>bindE\<close> sequences statements, an error ending
  the handler.
\<close>

datatype error = TypeError

definition deref :: "ref option \<Rightarrow> error + ref" where
  "deref v = (case v of None \<Rightarrow> Inl TypeError | Some r \<Rightarrow> Inr r)"

definition bindE :: "error + 'a \<Rightarrow> ('a \<Rightarrow> error + 'b) \<Rightarrow> error + 'b" where
  "bindE m f = (case m of Inl e \<Rightarrow> Inl e | Inr x \<Rightarrow> f x)"

subsection \<open>The DOM operations the script calls\<close>

definition document_querySelector :: "selector \<Rightarrow> page \<Rightarrow> ref option" where
  "document_querySelector sel p = find (\<lambda>r. matches (elems p r) sel) (elements (tree p))"

definition querySelectorAll :: "ref \<Rightarrow> selector \<Rightarrow> page \<Rightarrow> ref list" where
  "querySelectorAll r sel p = filter (\<lambda>x. matches (elems p x) sel) (descendants r (tree p))"

definition querySelector :: "ref \<Rightarrow> selector \<Rightarrow> page \<Rightarrow> ref option" where
  "querySelector r sel p = find (\<lambda>x. matches (elems p x) sel) (descendants r (tree p))"

definition new_element :: "string \<Rightarrow> element" where
  "new_element t =
     \<lparr>tagName = t, ident = [], className = [], attrs = [], checked = False, style = [],
      ownText = []\<rparr>"

definition createElement :: "string \<Rightarrow> page \<Rightarrow> ref \<times> page" where
  "createElement t p =
     (let r = next_ref p in
      (r, p\<lparr>elems := (elems p)(r := new_element t),
            next_ref := Suc r,
            mutations := mutations p @ [CreateElement r t]\<rparr>))"

definition set_className :: "ref \<Rightarrow> string \<Rightarrow> page \<Rightarrow> page" where
  "set_className r s p =
     p\<lparr>elems := (elems p)(r := (elems p r)\<lparr>className := s\<rparr>),
       mutations := mutations p @ [SetClassName r s]\<rparr>"

definition set_style :: "ref \<Rightarrow> string \<Rightarrow> string \<Rightarrow> page \<Rightarrow> page" where
  "set_style r k v p =
     p\<lparr>elems := (elems p)(r := (elems p r)\<lparr>style := AList.update k v (style (elems p r))\<rparr>),
       mutations := mutations p @ [SetStyle r k v]\<rparr>"

text \<open>
  \<^verbatim>\<open>appendChild\<close> of an element that has no parent and no children, which is what the
  only call in the script passes: the element just created.
\<close>

definition appendChild :: "ref \<Rightarrow> ref \<Rightarrow> page \<Rightarrow> page" where
  "appendChild parent child p =
     p\<lparr>tree := append_kid parent (Node child []) (tree p),
       mutations := mutations p @ [AppendChild parent child]\<rparr>"

definition set_checked :: "ref \<Rightarrow> bool \<Rightarrow> page \<Rightarrow> page" where
  "set_checked r v p =
     p\<lparr>elems := (elems p)(r := (elems p r)\<lparr>checked := v\<rparr>),
       mutations := mutations p @ [SetChecked r v]\<rparr>"

text \<open>
  Assigning \<^verbatim>\<open>textContent\<close> replaces all the children of the element by one text node.
\<close>

definition set_textContent :: "ref \<Rightarrow> ustring \<Rightarrow> page \<Rightarrow> page" where
  "set_textContent r s p =
     p\<lparr>tree := set_kids r [] (tree p),
       elems := (elems p)(r := (elems p r)\<lparr>ownText := s\<rparr>),
       mutations := mutations p @ [SetTextContent r s]\<rparr>"

text \<open>Reading \<^verbatim>\<open>textContent\<close>: the text of the element and of everything below it.\<close>

fun text_below :: "(ref \<Rightarrow> element) \<Rightarrow> dom \<Rightarrow> ustring" where
  "text_below st (Node r ks) = ownText (st r) @ concat (map (text_below st) ks)"

definition textContent :: "ref \<Rightarrow> page \<Rightarrow> ustring" where
  "textContent r p =
     (case subtree r (tree p) of
        None \<Rightarrow> ownText (elems p r)
      | Some s \<Rightarrow> text_below (elems p) s)"

text \<open>
  \<^verbatim>\<open>addEventListener("change", h)\<close>: a listener already registered on the target is not
  registered again.
\<close>

definition addEventListener :: "ref \<Rightarrow> handler \<Rightarrow> page \<Rightarrow> page" where
  "addEventListener r h p =
     (if (r, h) \<in> set (listeners p) then p else p\<lparr>listeners := listeners p @ [(r, h)]\<rparr>)"

subsection \<open>The script\<close>

text \<open>Lines 27 to 36: \<^verbatim>\<open>updateCounter\<close>.\<close>

definition updateCounter :: "closure \<Rightarrow> page \<Rightarrow> error + page" where
  "updateCounter c p =
     (let selected = length (filter (\<lambda>cb. checked (elems p cb)) (checkboxes c)) in
      if selected = 0 then
        bindE (deref (counter c)) (\<lambda>k. Inr (set_textContent k
          [0x41D, 0x438, 0x20, 0x43E, 0x434, 0x43D, 0x43E, 0x439, 0x20, 0x437, 0x430, 0x43F,
           0x438, 0x441, 0x438, 0x20, 0x43D, 0x435, 0x20, 0x432, 0x44B, 0x431, 0x440, 0x430,
           0x43D, 0x43E, 0x2E] p))
      else if selected = 1 then
        bindE (deref (counter c)) (\<lambda>k. Inr (set_textContent k
          [0x412, 0x44B, 0x431, 0x440, 0x430, 0x43D, 0x430, 0x20, 0x31, 0x20, 0x437, 0x430,
           0x43F, 0x438, 0x441, 0x44C, 0x20, 0x434, 0x43B, 0x44F, 0x20, 0x432, 0x43A, 0x43B,
           0x44E, 0x447, 0x435, 0x43D, 0x438, 0x44F, 0x20, 0x432, 0x20, 0x422, 0x417, 0x2E] p))
      else
        bindE (deref (counter c)) (\<lambda>k. Inr (set_textContent k
          ([0x412, 0x44B, 0x431, 0x440, 0x430, 0x43D, 0x43E, 0x20] @ toString selected @
           [0x20, 0x437, 0x430, 0x43F, 0x438, 0x441, 0x435, 0x439, 0x20, 0x434, 0x43B, 0x44F,
            0x20, 0x432, 0x43A, 0x43B, 0x44E, 0x447, 0x435, 0x43D, 0x438, 0x44F, 0x20, 0x432,
            0x20, 0x422, 0x417, 0x2E]) p)))"

text \<open>
  Lines 45 to 51, the listener of the select-all control, and the dispatch of a handler.
\<close>

definition selectAll_change :: "closure \<Rightarrow> page \<Rightarrow> error + page" where
  "selectAll_change c p =
     bindE (deref (selectAll c)) (\<lambda>sa.
       let v = checked (elems p sa) in
       updateCounter c (fold (\<lambda>cb. set_checked cb v) (checkboxes c) p))"

fun run_handler :: "handler \<Rightarrow> page \<Rightarrow> error + page" where
  "run_handler (UpdateCounter c) p = updateCounter c p"
| "run_handler (SelectAllChange c) p = selectAll_change c p"

text \<open>Lines 18 to 25: the counter node built when none was found.\<close>

definition create_counter :: "ref \<Rightarrow> page \<Rightarrow> ref option \<times> page" where
  "create_counter form p =
     (let (r, p1) = createElement ''div'' p;
          p2 = set_className r ''selected-count'' p1;
          p3 = set_style r ''marginTop'' ''0.4rem'' p2;
          p4 = set_style r ''fontSize'' ''0.8rem'' p3;
          p5 = set_style r ''color'' ''rgba(209, 213, 219, 0.9)'' p4;
          p6 = appendChild form r p5
      in (Some r, p6))"

text \<open>
  Lines 40 to 52: the listeners. The select-all control is wired only when it was found.
\<close>

definition install_listeners :: "closure \<Rightarrow> page \<Rightarrow> error + page" where
  "install_listeners c p =
     (let p1 = fold (\<lambda>cb. addEventListener cb (UpdateCounter c)) (checkboxes c) p in
      if selectAll c \<noteq> None then
        bindE (deref (selectAll c)) (\<lambda>sa. Inr (addEventListener sa (SelectAllChange c) p1))
      else Inr p1)"

text \<open>
  Lines 3 to 53: the body of the \<^verbatim>\<open>DOMContentLoaded\<close> handler. It returns the page and
  the variables it has bound, \<open>None\<close> when it left at line 6.
\<close>

definition init :: "page \<Rightarrow> error + page \<times> closure option" where
  "init p =
     (let form0 = document_querySelector (ClassSel ''history-form'') p in
      if form0 = None then Inr (p, None)
      else
        bindE (deref form0) (\<lambda>form.
          let tbl = querySelector form (ClassSel ''table-history'') p;
              cbs = querySelectorAll form
                      (TagAttrSel ''input'' [(''type'', ''checkbox''), (''name'', ''log_ids'')]) p;
              sel = querySelector form (IdSel ''select_all_logs'') p;
              found = document_querySelector (ClassSel ''selected-count'') p;
              (cnt, p1) = (if found = None then create_counter form p else (found, p));
              c = \<lparr>historyForm = form0, table = tbl, checkboxes = cbs, selectAll = sel,
                   counter = cnt\<rparr>
          in
          bindE (updateCounter c p1) (\<lambda>p2.
          bindE (install_listeners c p2) (\<lambda>p3. Inr (p3, Some c)))))"

subsection \<open>User events\<close>

text \<open>
  The user toggles a checkbox: the browser flips its state and dispatches a \<^verbatim>\<open>change\<close>
  event at it. The event bubbles: it visits the target and then its ancestors up to the
  root, and on each element visited the listeners registered there run in the order of
  their registration. The path is fixed when the event is dispatched. An element that is
  not in the document has no ancestors.
\<close>

fun paths_to :: "ref \<Rightarrow> dom \<Rightarrow> ref list list" where
  "paths_to r (Node x ks) =
     (if x = r then [[x]] else map ((#) x) (concat (map (paths_to r) ks)))"

definition event_path :: "ref \<Rightarrow> dom \<Rightarrow> ref list" where
  "event_path r t = (case paths_to r t of [] \<Rightarrow> [r] | pth # _ \<Rightarrow> rev pth)"

fun run_handlers :: "handler list \<Rightarrow> page \<Rightarrow> error + page" where
  "run_handlers [] p = Inr p"
| "run_handlers (h # hs) p = bindE (run_handler h p) (run_handlers hs)"

definition handlers_on :: "ref \<Rightarrow> page \<Rightarrow> handler list" where
  "handlers_on r p = map snd (filter (\<lambda>(t, h). t = r) (listeners p))"

definition change_handlers :: "ref \<Rightarrow> page \<Rightarrow> handler list" where
  "change_handlers r p = concat (map (\<lambda>n. handlers_on n p) (event_path r (tree p)))"

definition user_toggle :: "ref \<Rightarrow> page \<Rightarrow> error + page" where
  "user_toggle r p =
     (let q = p\<lparr>elems := (elems p)(r := (elems p r)\<lparr>checked := \<not> checked (elems p r)\<rparr>)\<rparr>
      in run_handlers (change_handlers r q) q)"

fun user_toggles :: "ref list \<Rightarrow> page \<Rightarrow> error + page" where
  "user_toggles [] p = Inr p"
| "user_toggles (r # rs) p = bindE (user_toggle r p) (user_toggles rs)"

text \<open>The number of checked boxes of the snapshot.\<close>

definition selected_count :: "closure \<Rightarrow> page \<Rightarrow> nat" where
  "selected_count c p = length (filter (\<lambda>cb. checked (elems p cb)) (checkboxes c))"

subsection \<open>The rule of the specification\<close>

text \<open>
  The three-way rule as the specification words it (section 4.1), to compare with what
  \<open>updateCounter\<close> writes: for no record the sentence "Ni odnoj zapisi ne vybrano.", for
  one record "Vybrana 1 zapis' dlya vklyucheniya v TZ.", and from two records on
  "Vybrano N zapisej dlya vklyucheniya v TZ." with the count in decimal (the sentences are
  in Cyrillic letters, given here by their code points).
\<close>

definition spec_counter_text :: "nat \<Rightarrow> ustring" where
  "spec_counter_text n =
     (if n = 0 then
        [1053, 1080, 32, 1086, 1076, 1085, 1086, 1081, 32, 1079, 1072, 1087, 1080, 1089, 1080,
         32, 1085, 1077, 32, 1074, 1099, 1073, 1088, 1072, 1085, 1086, 46]
      else if n = 1 then
        [1042, 1099, 1073, 1088, 1072, 1085, 1072, 32, 49, 32, 1079, 1072, 1087, 1080, 1089,
         1100, 32, 1076, 1083, 1103, 32, 1074, 1082, 1083, 1102, 1095, 1077, 1085, 1080, 1103,
         32, 1074, 32, 1058, 1047, 46]
      else
        [1042, 1099, 1073, 1088, 1072, 1085, 1086, 32] @ toString n @
        [32, 1079, 1072, 1087, 1080, 1089, 1077, 1081, 32, 1076, 1083, 1103, 32, 1074, 1082,
         1083, 1102, 1095, 1077, 1085, 1080, 1103, 32, 1074, 32, 1058, 1047, 46])"

subsection \<open>Example pages\<close>

definition el :: "string \<Rightarrow> string \<Rightarrow> string \<Rightarrow> (string \<times> string) list \<Rightarrow> bool \<Rightarrow> element" where
  "el t i cls avs b =
     \<lparr>tagName = t, ident = i, className = cls, attrs = avs, checked = b, style = [],
      ownText = []\<rparr>"

definition log_box :: "bool \<Rightarrow> element" where
  "log_box b = el ''input'' [] [] [(''type'', ''checkbox''), (''name'', ''log_ids'')] b"

text \<open>
  The history page: a form with a table, a select-all box and three record boxes, the
  second of them checked by the server and the third with its type written in upper case;
  no counter node.
\<close>

definition history_page :: page where
  "history_page =
     \<lparr>tree = Node 0 [Node 1 [Node 2 [Node 3 [Node 4 [], Node 5 [], Node 6 [], Node 7 []]]]],
      elems = (\<lambda>_. el ''div'' [] [] [] False)
        (0 := el ''html'' [] [] [] False,
         1 := el ''body'' [] [] [] False,
         2 := el ''form'' [] ''card history-form'' [] False,
         3 := el ''table'' [] ''table-history'' [] False,
         4 := el ''input'' ''select_all_logs'' [] [(''type'', ''checkbox'')] False,
         5 := log_box False,
         6 := log_box True,
         7 := el ''input'' [] [] [(''type'', ''CHECKBOX''), (''name'', ''log_ids'')] False),
      next_ref = 8, listeners = [], mutations = []\<rparr>"

text \<open>A page of the application without the history form.\<close>

definition other_page :: page where
  "other_page =
     \<lparr>tree = Node 0 [Node 1 [Node 2 []]],
      elems = (\<lambda>_. el ''div'' [] [] [] False)
        (0 := el ''html'' [] [] [] False,
         1 := el ''body'' [] [] [] False,
         2 := el ''div'' [] ''card'' [] False),
      next_ref = 3, listeners = [], mutations = []\<rparr>"

text \<open>A history page with no record: the form holds only the empty table.\<close>

definition empty_history_page :: page where
  "empty_history_page =
     \<lparr>tree = Node 0 [Node 1 [Node 2 [Node 3 []]]],
      elems = (\<lambda>_. el ''div'' [] [] [] False)
        (0 := el ''html'' [] [] [] False,
         1 := el ''body'' [] [] [] False,
         2 := el ''form'' [] ''history-form'' [] False,
         3 := el ''table'' [] ''table-history'' [] False),
      next_ref = 4, listeners = [], mutations = []\<rparr>"

text \<open>
  A history page whose template puts a styled \<^verbatim>\<open>.selected-count\<close> paragraph in the page
  header, before and outside the form, which holds a select-all box and two record boxes.
\<close>

definition header_counter_page :: page where
  "header_counter_page =
     \<lparr>tree = Node 0 [Node 1 [Node 2 [], Node 3 [Node 4 [], Node 5 [], Node 6 []]]],
      elems = (\<lambda>_. el ''div'' [] [] [] False)
        (0 := el ''html'' [] [] [] False,
         1 := el ''body'' [] [] [] False,
         2 := (el ''p'' [] ''muted selected-count'' [] False)\<lparr>style := [(''color'', ''red'')]\<rparr>,
         3 := el ''form'' [] ''history-form'' [] False,
         4 := el ''input'' ''select_all_logs'' [] [(''type'', ''checkbox'')] True,
         5 := log_box True,
         6 := log_box True),
      next_ref = 7, listeners = [], mutations = []\<rparr>"

text \<open>The variables the handler binds on that page.\<close>

definition header_counter_closure :: closure where
  "header_counter_closure =
     \<lparr>historyForm = Some 3, table = None, checkboxes = [5, 6], selectAll = Some 4,
      counter = Some 2\<rparr>"

subsection \<open>Invariants of the wiring\<close>

text \<open>
  The listeners this script installs for a closure, and the state in which the counter
  shows the text of the rule for the current number of checked boxes.
\<close>

definition script_handler :: "closure \<Rightarrow> handler \<Rightarrow> bool" where
  "script_handler c h =
     (h = UpdateCounter c \<or> (h = SelectAllChange c \<and> selectAll c \<noteq> None))"

definition in_step :: "closure \<Rightarrow> ref \<Rightarrow> page \<Rightarrow> bool" where
  "in_step c k p = (textContent k p = spec_counter_text (selected_count c p))"

section \<open>Properties\<close>

subsection \<open>Decimal digits, the tree and the text of an element\<close>

lemma decimal_value_toString: "decimal_value (toString n) = n"
proof (induction n rule: toString.induct)
  case (1 n)
  show ?case
  proof (cases "n < 10")
    case True
    then show ?thesis by (subst toString.simps) (simp add: decimal_value_def)
  next
    case False
    with 1 have "decimal_value (toString (n div 10)) = n div 10" by simp
    with False show ?thesis
      by (subst toString.simps) (simp add: decimal_value_def)
  qed
qed

lemma subtrees_set_kids: "subtrees r (set_kids r new t) = map (\<lambda>_. Node r new) (subtrees r t)"
  by (induction t) (simp add: map_concat comp_def cong: map_cong)

lemma subtree_set_kids: "subtree r (set_kids r new t) = map_option (\<lambda>_. Node r new) (subtree r t)"
  by (simp add: subtree_def subtrees_set_kids split: list.splits)

lemma textContent_set_textContent: "textContent k (set_textContent k s p) = s"
  by (simp add: textContent_def set_textContent_def subtree_set_kids split: option.splits)

lemma set_kids_idem: "set_kids r new (set_kids r new t) = set_kids r new t"
  by (induction t) (simp cong: map_cong)

lemma text_below_cong: "(\<And>x. ownText (st x) = ownText (st' x)) \<Longrightarrow> text_below st t = text_below st' t"
  by (induction t) (simp cong: map_cong)

lemma updateCounter_Some:
  "counter c = Some k \<Longrightarrow>
   updateCounter c p = Inr (set_textContent k (spec_counter_text (selected_count c p)) p)"
  by (simp add: updateCounter_def selected_count_def spec_counter_text_def bindE_def deref_def Let_def)

lemma updateCounter_None: "counter c = None \<Longrightarrow> updateCounter c p = Inl TypeError"
  by (simp add: updateCounter_def bindE_def deref_def Let_def)

lemma checked_set_textContent: "checked (elems (set_textContent k s p) r) = checked (elems p r)"
  by (simp add: set_textContent_def)

lemma selected_count_set_textContent: "selected_count c (set_textContent k s p) = selected_count c p"
  by (simp add: selected_count_def checked_set_textContent)

lemma fold_set_checked_elems:
  "elems (fold (\<lambda>cb. set_checked cb v) cbs p) r =
     (if r \<in> set cbs then (elems p r)\<lparr>checked := v\<rparr> else elems p r)"
  by (induction cbs arbitrary: p) (auto simp: set_checked_def)

lemma fold_set_checked_frame:
  "tree (fold (\<lambda>cb. set_checked cb v) cbs p) = tree p \<and>
   listeners (fold (\<lambda>cb. set_checked cb v) cbs p) = listeners p \<and>
   next_ref (fold (\<lambda>cb. set_checked cb v) cbs p) = next_ref p \<and>
   mutations (fold (\<lambda>cb. set_checked cb v) cbs p) = mutations p @ map (\<lambda>cb. SetChecked cb v) cbs"
  by (induction cbs arbitrary: p) (auto simp: set_checked_def)

lemma selected_count_all:
  "selected_count c (fold (\<lambda>cb. set_checked cb v) (checkboxes c) p) =
     (if v then length (checkboxes c) else 0)"
  by (simp add: selected_count_def fold_set_checked_elems cong: filter_cong)

lemma selectAll_change_Some:
  "selectAll c = Some sa \<Longrightarrow> counter c = Some k \<Longrightarrow>
   selectAll_change c p =
     Inr (set_textContent k
            (spec_counter_text (if checked (elems p sa) then length (checkboxes c) else 0))
            (fold (\<lambda>cb. set_checked cb (checked (elems p sa))) (checkboxes c) p))"
  by (simp add: selectAll_change_def bindE_def deref_def Let_def updateCounter_Some selected_count_all)

lemma run_handler_script:
  assumes "counter c = Some k" and "script_handler c h"
  shows "\<exists>p' ms. run_handler h p = Inr p' \<and> listeners p' = listeners p \<and> in_step c k p' \<and>
     mutations p' = mutations p @ ms @
       [SetTextContent k (spec_counter_text (selected_count c p'))]"
proof -
  from assms(2) consider "h = UpdateCounter c"
    | sa where "h = SelectAllChange c" "selectAll c = Some sa"
    by (auto simp: script_handler_def)
  then show ?thesis
  proof cases
    case 1
    have "mutations (set_textContent k s p) = mutations p @ [] @ [SetTextContent k s]" for s
      by (simp add: set_textContent_def)
    moreover have "listeners (set_textContent k s p) = listeners p" for s
      by (simp add: set_textContent_def)
    ultimately show ?thesis using 1 assms(1)
      by (auto simp: updateCounter_Some in_step_def textContent_set_textContent
          selected_count_set_textContent)
  next
    case 2
    define q where "q = fold (\<lambda>cb. set_checked cb (checked (elems p sa))) (checkboxes c) p"
    have "mutations (set_textContent k s q) =
        mutations p @ map (\<lambda>cb. SetChecked cb (checked (elems p sa))) (checkboxes c) @
        [SetTextContent k s]" for s
      by (simp add: set_textContent_def q_def fold_set_checked_frame)
    moreover have "listeners (set_textContent k s q) = listeners p" for s
      by (simp add: set_textContent_def q_def fold_set_checked_frame)
    moreover have "selected_count c q =
        (if checked (elems p sa) then length (checkboxes c) else 0)"
      by (simp add: q_def selected_count_all)
    ultimately show ?thesis using 2 assms(1)
      by (auto simp: selectAll_change_Some in_step_def textContent_set_textContent
          selected_count_set_textContent q_def [symmetric])
  qed
qed

lemma run_handlers_script:
  assumes "counter c = Some k" and "list_all (script_handler c) hs"
  shows "\<exists>p'. run_handlers hs p = Inr p' \<and> listeners p' = listeners p \<and>
           (if hs = [] then p' = p
            else in_step c k p' \<and>
              (\<exists>ms. mutations p' = mutations p @ ms @
                 [SetTextContent k (spec_counter_text (selected_count c p'))]))"
  using assms(2)
proof (induction hs arbitrary: p)
  case Nil
  then show ?case by simp
next
  case (Cons h hs)
  then have h: "script_handler c h" and hs: "list_all (script_handler c) hs" by simp_all
  from run_handler_script[OF assms(1) h, of p] obtain p1 ms1 where
    p1: "run_handler h p = Inr p1" "listeners p1 = listeners p" "in_step c k p1"
     "mutations p1 = mutations p @ ms1 @
        [SetTextContent k (spec_counter_text (selected_count c p1))]"
    by blast
  from Cons.IH[OF hs, of p1] obtain p2 where
    p2: "run_handlers hs p1 = Inr p2" "listeners p2 = listeners p1"
      "if hs = [] then p2 = p1
       else in_step c k p2 \<and>
         (\<exists>ms. mutations p2 = mutations p1 @ ms @
            [SetTextContent k (spec_counter_text (selected_count c p2))])"
    by blast
  show ?case
  proof (cases "hs = []")
    case True
    with p1 p2 show ?thesis by (auto simp: bindE_def)
  next
    case False
    with p2 obtain ms2 where
      m2: "mutations p2 = mutations p1 @ ms2 @
            [SetTextContent k (spec_counter_text (selected_count c p2))]"
      and s2: "in_step c k p2" by auto
    have "mutations p2 = mutations p @
        (ms1 @ [SetTextContent k (spec_counter_text (selected_count c p1))] @ ms2) @
        [SetTextContent k (spec_counter_text (selected_count c p2))]"
      using m2 p1(4) by simp
    with p1 p2 s2 show ?thesis by (auto simp: bindE_def simp del: append_assoc)
  qed
qed

text \<open>What a handler of the script does to the \<^verbatim>\<open>checked\<close> states.\<close>

lemma run_handler_checked:
  assumes "counter c = Some k" and "selectAll c = Some sa" and "script_handler c h"
    and "run_handler h p = Inr p'"
  shows "checked (elems p' sa) = checked (elems p sa) \<and>
     (h = SelectAllChange c \<or>
      list_all (\<lambda>cb. checked (elems p cb) = checked (elems p sa)) (checkboxes c) \<longrightarrow>
      list_all (\<lambda>cb. checked (elems p' cb) = checked (elems p sa)) (checkboxes c))"
proof -
  from assms(3) consider "h = UpdateCounter c" | "h = SelectAllChange c"
    by (auto simp: script_handler_def)
  then show ?thesis
  proof cases
    case 1
    with assms have "p' = set_textContent k (spec_counter_text (selected_count c p)) p"
      by (simp add: updateCounter_Some)
    with 1 show ?thesis by (simp add: checked_set_textContent)
  next
    case 2
    with assms have "p' = set_textContent k
            (spec_counter_text (if checked (elems p sa) then length (checkboxes c) else 0))
            (fold (\<lambda>cb. set_checked cb (checked (elems p sa))) (checkboxes c) p)"
      by (simp add: selectAll_change_Some)
    then show ?thesis
      by (simp add: checked_set_textContent fold_set_checked_elems list_all_iff)
  qed
qed

lemma run_handlers_checked:
  assumes "counter c = Some k" and "selectAll c = Some sa"
    and "list_all (script_handler c) hs" and "run_handlers hs p = Inr p'"
  shows "checked (elems p' sa) = checked (elems p sa) \<and>
     (SelectAllChange c \<in> set hs \<or>
      list_all (\<lambda>cb. checked (elems p cb) = checked (elems p sa)) (checkboxes c) \<longrightarrow>
      list_all (\<lambda>cb. checked (elems p' cb) = checked (elems p sa)) (checkboxes c))"
  using assms(3,4)
proof (induction hs arbitrary: p)
  case Nil
  then show ?case by simp
next
  case (Cons h hs)
  then have h: "script_handler c h" and hs: "list_all (script_handler c) hs" by simp_all
  from Cons.prems(2) obtain p1 where
    p1: "run_handler h p = Inr p1" and r: "run_handlers hs p1 = Inr p'"
    by (auto simp: bindE_def split: sum.splits)
  note a = run_handler_checked[OF assms(1,2) h p1]
  note b = Cons.IH[OF hs r]
  show ?case using a b by auto
qed

subsection \<open>The listeners and the start-up\<close>

lemma fold_addEventListener:
  "tree (fold (\<lambda>cb. addEventListener cb h) cbs p) = tree p \<and>
   elems (fold (\<lambda>cb. addEventListener cb h) cbs p) = elems p \<and>
   next_ref (fold (\<lambda>cb. addEventListener cb h) cbs p) = next_ref p \<and>
   mutations (fold (\<lambda>cb. addEventListener cb h) cbs p) = mutations p \<and>
   set (listeners (fold (\<lambda>cb. addEventListener cb h) cbs p)) =
     set (listeners p) \<union> (\<lambda>cb. (cb, h)) ` set cbs"
  by (induction cbs arbitrary: p) (auto simp: addEventListener_def)

lemma install_listeners_ok:
  "\<exists>p'. install_listeners c p = Inr p' \<and> tree p' = tree p \<and> elems p' = elems p \<and>
     next_ref p' = next_ref p \<and> mutations p' = mutations p \<and>
     set (listeners p') =
       set (listeners p) \<union> (\<lambda>cb. (cb, UpdateCounter c)) ` set (checkboxes c) \<union>
       (case selectAll c of None \<Rightarrow> {} | Some sa \<Rightarrow> {(sa, SelectAllChange c)})"
  by (cases "selectAll c")
     (auto simp: install_listeners_def bindE_def deref_def Let_def addEventListener_def
        fold_addEventListener)

lemma install_listeners_none:
  "checkboxes c = [] \<Longrightarrow> selectAll c = None \<Longrightarrow> install_listeners c p = Inr p"
  by (simp add: install_listeners_def)

lemma create_counter_eq:
  "create_counter f p =
     (Some (next_ref p),
      p\<lparr>tree := append_kid f (Node (next_ref p) []) (tree p),
        elems := (elems p)(next_ref p :=
          \<lparr>tagName = ''div'', ident = [], className = ''selected-count'', attrs = [],
           checked = False,
           style = [(''marginTop'', ''0.4rem''), (''fontSize'', ''0.8rem''),
                    (''color'', ''rgba(209, 213, 219, 0.9)'')],
           ownText = []\<rparr>),
        next_ref := Suc (next_ref p),
        mutations := mutations p @
          [CreateElement (next_ref p) ''div'', SetClassName (next_ref p) ''selected-count'',
           SetStyle (next_ref p) ''marginTop'' ''0.4rem'',
           SetStyle (next_ref p) ''fontSize'' ''0.8rem'',
           SetStyle (next_ref p) ''color'' ''rgba(209, 213, 219, 0.9)'',
           AppendChild f (next_ref p)]\<rparr>)"
  by (simp add: create_counter_def createElement_def set_className_def set_style_def
      appendChild_def new_element_def Let_def)

lemma init_found:
  assumes "document_querySelector (ClassSel ''history-form'') p = Some f"
  shows "\<exists>c k p1 p'. init p = Inr (p', Some c) \<and>
      c = \<lparr>historyForm = Some f,
           table = querySelector f (ClassSel ''table-history'') p,
           checkboxes = querySelectorAll f
              (TagAttrSel ''input'' [(''type'', ''checkbox''), (''name'', ''log_ids'')]) p,
           selectAll = querySelector f (IdSel ''select_all_logs'') p,
           counter = Some k\<rparr> \<and>
      (k, p1) = (case document_querySelector (ClassSel ''selected-count'') p of
                   Some x \<Rightarrow> (x, p) | None \<Rightarrow> (next_ref p, snd (create_counter f p))) \<and>
      install_listeners c (set_textContent k (spec_counter_text (selected_count c p1)) p1) = Inr p'"
proof (cases "document_querySelector (ClassSel ''selected-count'') p")
  case None
  obtain c where c: "c = \<lparr>historyForm = Some f,
           table = querySelector f (ClassSel ''table-history'') p,
           checkboxes = querySelectorAll f
              (TagAttrSel ''input'' [(''type'', ''checkbox''), (''name'', ''log_ids'')]) p,
           selectAll = querySelector f (IdSel ''select_all_logs'') p,
           counter = Some (next_ref p)\<rparr>" by simp
  then have k: "counter c = Some (next_ref p)" by simp
  obtain p' where p': "install_listeners c (set_textContent (next_ref p)
      (spec_counter_text (selected_count c (snd (create_counter f p)))) (snd (create_counter f p))) = Inr p'"
    using install_listeners_ok by blast
  have "init p = Inr (p', Some c)"
    using assms None p' updateCounter_Some[OF k]
    by (simp add: init_def Let_def bindE_def deref_def c[symmetric] create_counter_eq)
  then show ?thesis using None c p' by auto
next
  case (Some k)
  obtain c where c: "c = \<lparr>historyForm = Some f,
           table = querySelector f (ClassSel ''table-history'') p,
           checkboxes = querySelectorAll f
              (TagAttrSel ''input'' [(''type'', ''checkbox''), (''name'', ''log_ids'')]) p,
           selectAll = querySelector f (IdSel ''select_all_logs'') p,
           counter = Some k\<rparr>" by simp
  then have k: "counter c = Some k" by simp
  obtain p' where p': "install_listeners c (set_textContent k
      (spec_counter_text (selected_count c p)) p) = Inr p'"
    using install_listeners_ok by blast
  have "init p = Inr (p', Some c)"
    using assms Some p' updateCounter_Some[OF k]
    by (simp add: init_def Let_def bindE_def deref_def c[symmetric])
  then show ?thesis using Some c p' by auto
qed

subsection \<open>Appending to the form\<close>

lemma created_append: "created (ms @ ns) = created ms @ created ns"
  by (induction ms rule: created.induct) simp_all

lemma subtrees_append_kid:
  "subtrees f (append_kid f k t) = map (\<lambda>s. Node f (children s @ [k])) (subtrees f t)"
  by (induction t) (simp add: map_concat comp_def cong: map_cong)

lemma set_kids_absent: "r \<notin> set (elements t) \<Longrightarrow> set_kids r new t = t"
  by (induction t) (simp add: map_idI)

lemma set_kids_append_fresh:
  "n \<notin> set (elements t) \<Longrightarrow>
   set_kids n [] (append_kid f (Node n []) t) = append_kid f (Node n []) t"
  by (induction t) (auto simp: set_kids_absent map_idI)

lemma subtrees_root: "s \<in> set (subtrees f t) \<Longrightarrow> \<exists>ks. s = Node f ks"
  by (induction t) (auto split: if_splits)

lemma subtrees_nonempty: "f \<in> set (elements t) \<Longrightarrow> subtrees f t \<noteq> []"
  by (induction t) auto

lemma subtree_of_element: "f \<in> set (elements t) \<Longrightarrow> \<exists>ks. subtree f t = Some (Node f ks)"
proof -
  assume "f \<in> set (elements t)"
  then obtain s ss where s: "subtrees f t = s # ss"
    using subtrees_nonempty by (cases "subtrees f t") auto
  then have "s \<in> set (subtrees f t)" by simp
  then obtain ks where "s = Node f ks" using subtrees_root by blast
  with s show ?thesis by (simp add: subtree_def)
qed

lemma subtree_append_kid:
  "subtree f t = Some (Node f ks) \<Longrightarrow> subtree f (append_kid f k t) = Some (Node f (ks @ [k]))"
  by (auto simp: subtree_def subtrees_append_kid split: list.splits)

lemma document_querySelector_Some:
  "document_querySelector sel p = Some f \<Longrightarrow> f \<in> set (elements (tree p)) \<and> matches (elems p f) sel"
  by (auto simp: document_querySelector_def find_Some_iff)

subsection \<open>Toggles keep the counter in step\<close>

lemma textContent_cong:
  assumes "tree p = tree q" and "\<And>x. ownText (elems p x) = ownText (elems q x)"
  shows "textContent k p = textContent k q"
proof -
  have "text_below (elems p) t = text_below (elems q) t" for t
    by (rule text_below_cong) (rule assms(2))
  then show ?thesis using assms by (simp add: textContent_def split: option.splits)
qed

lemma paths_to_shape: "pth \<in> set (paths_to r t) \<Longrightarrow> \<exists>as. pth = as @ [r] \<and> r \<notin> set as"
proof (induction t arbitrary: pth)
  case (Node x ks)
  show ?case
  proof (cases "x = r")
    case True
    with Node.prems show ?thesis by simp
  next
    case False
    with Node.prems obtain k q where k: "k \<in> set ks" and q: "q \<in> set (paths_to r k)"
      and pth: "pth = x # q" by auto
    from Node.IH[OF k q] obtain as where "q = as @ [r]" "r \<notin> set as" by blast
    with pth False have "pth = (x # as) @ [r] \<and> r \<notin> set (x # as)" by simp
    then show ?thesis by blast
  qed
qed

lemma event_path_shape: "\<exists>as. event_path r t = r # as \<and> r \<notin> set as"
proof (cases "paths_to r t")
  case Nil
  then show ?thesis by (simp add: event_path_def)
next
  case (Cons pth rest)
  then have "pth \<in> set (paths_to r t)" by simp
  from paths_to_shape[OF this] obtain as where "pth = as @ [r]" "r \<notin> set as" by blast
  with Cons show ?thesis by (simp add: event_path_def)
qed

lemma handlers_on_script:
  assumes "\<forall>(t, h) \<in> set (listeners p). script_handler c h"
  shows "list_all (script_handler c) (handlers_on r p)"
  using assms by (auto simp: handlers_on_def list_all_iff)

lemma handlers_on_empty:
  "handlers_on r p = [] \<Longrightarrow> r \<notin> fst ` set (listeners p)"
  by (auto simp: handlers_on_def filter_empty_conv)

lemma handlers_on_nonempty:
  "r \<in> fst ` set (listeners p) \<Longrightarrow> handlers_on r p \<noteq> []"
  by (auto simp: handlers_on_def filter_empty_conv)

lemma change_handlers_script:
  assumes "\<forall>(t, h) \<in> set (listeners p). script_handler c h"
  shows "list_all (script_handler c) (change_handlers r p)"
  using handlers_on_script[OF assms]
  by (auto simp: change_handlers_def list_all_iff)

lemma change_handlers_target:
  "\<exists>hs. change_handlers r p = handlers_on r p @ hs"
  using event_path_shape[of r "tree p"] by (auto simp: change_handlers_def)

lemma user_toggle_script:
  assumes k: "counter c = Some k"
    and A1: "\<forall>(t, h) \<in> set (listeners p). script_handler c h"
    and A2: "\<forall>cb \<in> set (checkboxes c). cb \<in> fst ` set (listeners p)"
    and S: "in_step c k p"
  shows "\<exists>p'. user_toggle r p = Inr p' \<and> listeners p' = listeners p \<and> in_step c k p' \<and>
           (r \<in> fst ` set (listeners p) \<longrightarrow>
              (\<exists>ms. mutations p' = mutations p @ ms @
                 [SetTextContent k (spec_counter_text (selected_count c p'))]))"
proof -
  define q where "q = p\<lparr>elems := (elems p)(r := (elems p r)\<lparr>checked := \<not> checked (elems p r)\<rparr>)\<rparr>"
  have lq: "listeners q = listeners p" and mq: "mutations q = mutations p"
    by (simp_all add: q_def)
  have all: "list_all (script_handler c) (change_handlers r q)"
    using change_handlers_script[of q c r] A1 lq by simp
  from run_handlers_script[OF k all, of q] obtain p' where
    p': "run_handlers (change_handlers r q) q = Inr p'" "listeners p' = listeners q"
      "if change_handlers r q = [] then p' = q
       else in_step c k p' \<and>
         (\<exists>ms. mutations p' = mutations q @ ms @
            [SetTextContent k (spec_counter_text (selected_count c p'))])"
    by blast
  have run: "user_toggle r p = Inr p'"
    using p'(1) by (simp add: user_toggle_def q_def Let_def)
  show ?thesis
  proof (cases "change_handlers r q = []")
    case True
    then have "handlers_on r q = []" using change_handlers_target[of r q] by auto
    then have nl: "r \<notin> fst ` set (listeners p)" using handlers_on_empty lq by metis
    then have nr: "r \<notin> set (checkboxes c)" using A2 by blast
    have "selected_count c q = selected_count c p"
      using nr by (auto simp: selected_count_def q_def intro!: arg_cong[where f=length] filter_cong)
    moreover have "textContent k q = textContent k p"
      by (rule textContent_cong) (simp_all add: q_def)
    ultimately have "in_step c k q" using S by (simp add: in_step_def)
    with True p' run lq nl show ?thesis by simp
  next
    case False
    with p' run lq mq show ?thesis by simp
  qed
qed

lemma user_toggles_script:
  assumes k: "counter c = Some k"
    and A1: "\<forall>(t, h) \<in> set (listeners p). script_handler c h"
    and A2: "\<forall>cb \<in> set (checkboxes c). cb \<in> fst ` set (listeners p)"
    and S: "in_step c k p"
  shows "\<exists>p'. user_toggles rs p = Inr p' \<and> listeners p' = listeners p \<and> in_step c k p'"
  using A1 A2 S
proof (induction rs arbitrary: p)
  case Nil
  then show ?case by simp
next
  case (Cons r rs)
  from user_toggle_script[OF k Cons.prems(1) Cons.prems(2) Cons.prems(3), of r] obtain p1 where
    p1: "user_toggle r p = Inr p1" "listeners p1 = listeners p" "in_step c k p1" by blast
  from Cons.IH[of p1] Cons.prems p1 obtain p2 where
    "user_toggles rs p1 = Inr p2" "listeners p2 = listeners p1" "in_step c k p2" by auto
  with p1 show ?case by (simp add: bindE_def)
qed

lemma mem_handlers_on: "h \<in> set (handlers_on r p) \<longleftrightarrow> (r, h) \<in> set (listeners p)"
  by (force simp: handlers_on_def)

lemma handlers_on_fold_add:
  "handlers_on r (fold (\<lambda>cb. addEventListener cb h) cbs p) =
     handlers_on r p @ (if r \<in> set cbs \<and> h \<notin> set (handlers_on r p) then [h] else [])"
proof (induction cbs arbitrary: p)
  case Nil
  then show ?case by simp
next
  case (Cons cb cbs)
  have a: "handlers_on r (addEventListener cb h p) =
      handlers_on r p @ (if r = cb \<and> h \<notin> set (handlers_on r p) then [h] else [])"
  proof (cases "(cb, h) \<in> set (listeners p)")
    case True
    then show ?thesis by (auto simp: addEventListener_def mem_handlers_on)
  next
    case False
    then have "listeners (addEventListener cb h p) = listeners p @ [(cb, h)]"
      by (simp add: addEventListener_def)
    then have "handlers_on r (addEventListener cb h p) =
        handlers_on r p @ (if r = cb then [h] else [])"
      by (simp add: handlers_on_def)
    with False show ?thesis by (auto simp: mem_handlers_on)
  qed
  show ?case by (simp add: Cons.IH a)
qed

lemma handlers_on_install:
  assumes "install_listeners c p = Inr p'" and "listeners p = []"
  shows "handlers_on r p' =
     (if r \<in> set (checkboxes c) then [UpdateCounter c] else []) @
     (if selectAll c = Some r then [SelectAllChange c] else [])"
proof -
  define p1 where "p1 = fold (\<lambda>cb. addEventListener cb (UpdateCounter c)) (checkboxes c) p"
  have e: "handlers_on x p = []" for x using assms(2) by (simp add: handlers_on_def)
  have h1: "handlers_on x p1 = (if x \<in> set (checkboxes c) then [UpdateCounter c] else [])" for x
    by (simp add: p1_def handlers_on_fold_add e)
  show ?thesis
  proof (cases "selectAll c")
    case None
    with assms(1) have "p' = p1" by (simp add: install_listeners_def p1_def)
    with None h1 show ?thesis by simp
  next
    case (Some sa)
    have "SelectAllChange c \<notin> set (handlers_on sa p1)" by (simp add: h1)
    then have n: "(sa, SelectAllChange c) \<notin> set (listeners p1)"
      by (simp add: mem_handlers_on)
    from Some assms(1) have "p' = addEventListener sa (SelectAllChange c) p1"
      by (simp add: install_listeners_def p1_def bindE_def deref_def Let_def)
    with n have "listeners p' = listeners p1 @ [(sa, SelectAllChange c)]"
      by (simp add: addEventListener_def)
    then have "handlers_on r p' = handlers_on r p1 @ (if r = sa then [SelectAllChange c] else [])"
      by (simp add: handlers_on_def)
    with Some h1 show ?thesis by auto
  qed
qed

lemma init_wired:
  assumes f: "document_querySelector (ClassSel ''history-form'') p = Some f"
    and l: "listeners p = []"
  shows "\<exists>p1 c k ms. init p = Inr (p1, Some c) \<and> counter c = Some k \<and> in_step c k p1 \<and>
      selectAll c = querySelector f (IdSel ''select_all_logs'') p \<and>
      mutations p1 = mutations p @ ms @
        [SetTextContent k (spec_counter_text (selected_count c p1))] \<and>
      (\<forall>r. handlers_on r p1 =
         (if r \<in> set (checkboxes c) then [UpdateCounter c] else []) @
         (if selectAll c = Some r then [SelectAllChange c] else [])) \<and>
      (\<forall>(t, h) \<in> set (listeners p1). script_handler c h) \<and>
      (\<forall>cb \<in> set (checkboxes c). cb \<in> fst ` set (listeners p1)) \<and>
      (\<forall>sa. selectAll c = Some sa \<longrightarrow> sa \<in> fst ` set (listeners p1))"
proof -
  from init_found[OF f] obtain c k p0 p1 where
    i: "init p = Inr (p1, Some c)" and k: "counter c = Some k"
    and sa: "selectAll c = querySelector f (IdSel ''select_all_logs'') p"
    and kp: "(k, p0) = (case document_querySelector (ClassSel ''selected-count'') p of
                   Some x \<Rightarrow> (x, p) | None \<Rightarrow> (next_ref p, snd (create_counter f p)))"
    and inst: "install_listeners c (set_textContent k (spec_counter_text (selected_count c p0)) p0) = Inr p1"
    by auto
  define q where "q = set_textContent k (spec_counter_text (selected_count c p0)) p0"
  from install_listeners_ok[of c q] inst obtain
    t: "tree p1 = tree q" and e: "elems p1 = elems q" and m: "mutations p1 = mutations q"
    and ls: "set (listeners p1) = set (listeners q) \<union> (\<lambda>cb. (cb, UpdateCounter c)) ` set (checkboxes c) \<union>
       (case selectAll c of None \<Rightarrow> {} | Some sa \<Rightarrow> {(sa, SelectAllChange c)})"
    by (auto simp: q_def)
  have lp0: "listeners p0 = []"
    using kp l by (auto simp: create_counter_eq split: option.splits)
  then have lq: "listeners q = []" by (simp add: q_def set_textContent_def)
  have sq: "in_step c k q"
    by (simp add: in_step_def q_def textContent_set_textContent selected_count_set_textContent)
  have s1: "selected_count c p1 = selected_count c q" by (simp add: selected_count_def e)
  have "textContent k p1 = textContent k q" by (rule textContent_cong) (simp_all add: t e)
  with sq s1 have step: "in_step c k p1" by (simp add: in_step_def)
  have "\<exists>ms. mutations p0 = mutations p @ ms"
    using kp by (auto simp: create_counter_eq split: option.splits)
  then obtain ms where "mutations p0 = mutations p @ ms" by blast
  moreover have "selected_count c q = selected_count c p0"
    by (simp add: q_def selected_count_set_textContent)
  moreover have "mutations q =
      mutations p0 @ [SetTextContent k (spec_counter_text (selected_count c p0))]"
    by (simp add: q_def set_textContent_def)
  ultimately have mq: "mutations p1 = mutations p @ ms @
      [SetTextContent k (spec_counter_text (selected_count c p1))]"
    by (simp add: s1 m)
  have H: "\<forall>r. handlers_on r p1 =
         (if r \<in> set (checkboxes c) then [UpdateCounter c] else []) @
         (if selectAll c = Some r then [SelectAllChange c] else [])"
    using handlers_on_install[OF inst[folded q_def] lq] by blast
  have "\<forall>(t, h) \<in> set (listeners p1). script_handler c h"
    using ls lq by (auto simp: script_handler_def split: option.splits)
  moreover have "\<forall>cb \<in> set (checkboxes c). cb \<in> fst ` set (listeners p1)"
    using ls by force
  moreover have "\<forall>sa. selectAll c = Some sa \<longrightarrow> sa \<in> fst ` set (listeners p1)"
    using ls by force
  ultimately show ?thesis using i k step mq sa H by blast
qed

lemma selected_count_uniform:
  "list_all (\<lambda>cb. checked (elems p cb) = v) (checkboxes c) \<Longrightarrow>
   selected_count c p = (if v then length (checkboxes c) else 0)"
  by (auto simp: selected_count_def list_all_iff filter_empty_conv cong: filter_cong)

subsection \<open>The select-all listener and the counter in the tree\<close>

text \<open>
  The select-all listener run on its own, whatever the page: one assignment per checkbox of
  the snapshot and then a single writing of the counter's text.
\<close>

lemma selectAll_change_effect:
  assumes "selectAll c = Some sa" and "counter c = Some k"
  shows "\<exists>p'. selectAll_change c p = Inr p' \<and>
     list_all (\<lambda>cb. checked (elems p' cb) = checked (elems p sa)) (checkboxes c) \<and>
     mutations p' = mutations p @
        map (\<lambda>cb. SetChecked cb (checked (elems p sa))) (checkboxes c) @
        [SetTextContent k (spec_counter_text (selected_count c p'))] \<and>
     selected_count c p' = (if checked (elems p sa) then length (checkboxes c) else 0) \<and>
     textContent k p' = spec_counter_text (selected_count c p')"
proof -
  define v where "v = checked (elems p sa)"
  define q where "q = fold (\<lambda>cb. set_checked cb v) (checkboxes c) p"
  define p' where "p' = set_textContent k (spec_counter_text (if v then length (checkboxes c) else 0)) q"
  have run: "selectAll_change c p = Inr p'"
    using assms by (simp add: selectAll_change_Some p'_def q_def v_def)
  have n: "selected_count c p' = (if v then length (checkboxes c) else 0)"
    by (simp add: p'_def q_def selected_count_set_textContent selected_count_all)
  have all: "list_all (\<lambda>cb. checked (elems p' cb) = v) (checkboxes c)"
    by (simp add: list_all_iff p'_def q_def checked_set_textContent fold_set_checked_elems)
  have m: "mutations p' = mutations p @ map (\<lambda>cb. SetChecked cb v) (checkboxes c) @
        [SetTextContent k (spec_counter_text (selected_count c p'))]"
    unfolding n by (simp add: p'_def q_def set_textContent_def fold_set_checked_frame)
  have t: "textContent k p' = spec_counter_text (selected_count c p')"
    unfolding n by (simp add: p'_def textContent_set_textContent)
  show ?thesis using run all m n t unfolding v_def by blast
qed

lemma elements_set_kids: "k \<in> set (elements t) \<Longrightarrow> k \<in> set (elements (set_kids k new t))"
  by (induction t) auto

lemma elements_append_kid:
  "f \<in> set (elements t) \<Longrightarrow> n \<in> set (elements (append_kid f (Node n []) t))"
  by (induction t) auto

section \<open>The claims\<close>

text \<open>
  Claim C1. Whatever the states of the checkboxes, \<open>updateCounter\<close> returns and leaves in
  the counter node the text the three-way rule gives for the number of checked boxes of
  the snapshot: the sentence for none, the sentence for one, and from two on the sentence
  carrying the count, whose digits read back in base ten give the count.
\<close>

theorem updateCounter_three_way:
  assumes "counter c = Some k"
  shows "\<exists>p'. updateCounter c p = Inr p' \<and>
           textContent k p' = spec_counter_text (selected_count c p) \<and>
           decimal_value (toString (selected_count c p)) = selected_count c p"
  using assms
  by (simp add: updateCounter_Some textContent_set_textContent decimal_value_toString)

theorem updateCounter_three_way_witness:
  "counter header_counter_closure = Some 2 \<and>
   (\<exists>p'. updateCounter header_counter_closure header_counter_page = Inr p' \<and>
      textContent 2 p' =
        [1042, 1099, 1073, 1088, 1072, 1085, 1086, 32, 50, 32, 1079, 1072, 1087, 1080, 1089,
         1077, 1081, 32, 1076, 1083, 1103, 32, 1074, 1082, 1083, 1102, 1095, 1077, 1085, 1080,
         1103, 32, 1074, 32, 1058, 1047, 46])"
proof -
  have k: "counter header_counter_closure = Some 2"
    by (simp add: header_counter_closure_def)
  have n: "selected_count header_counter_closure header_counter_page = 2"
    by (simp add: selected_count_def header_counter_page_def header_counter_closure_def
        el_def log_box_def)
  show ?thesis
    using updateCounter_three_way [OF k, of header_counter_page] k
    by (auto simp: n spec_counter_text_def toString.simps)
qed

text \<open>
  Claim C2. When the select-all control is found, the start-up registers the select-all
  listener on it, and whenever the user toggles the control, after any earlier toggles, every
  checkbox of the snapshot ends with the control's new state and the counter shows the text
  for all or for none. When neither the control nor an element above it is a checkbox of
  the snapshot, that listener is the only one the event runs, and the toggle adds to the
  mutations one assignment of \<^verbatim>\<open>checked\<close> per checkbox, in order, followed by a single
  assignment of the counter's text: the counter is recomputed once, not once per checkbox.
\<close>

theorem select_all_toggle_sets_all_then_recomputes_once:
  assumes f: "document_querySelector (ClassSel ''history-form'') p = Some f"
    and l: "listeners p = []"
    and s: "querySelector f (IdSel ''select_all_logs'') p = Some sa"
  shows "\<exists>p1 c k. init p = Inr (p1, Some c) \<and> selectAll c = Some sa \<and> counter c = Some k \<and>
     SelectAllChange c \<in> set (handlers_on sa p1) \<and>
     (\<forall>rs. \<exists>p2 p3. user_toggles rs p1 = Inr p2 \<and> user_toggle sa p2 = Inr p3 \<and>
        SelectAllChange c \<in> set (handlers_on sa p2) \<and>
        list_all (\<lambda>cb. checked (elems p3 cb) = (\<not> checked (elems p2 sa))) (checkboxes c) \<and>
        textContent k p3 =
          spec_counter_text (if checked (elems p2 sa) then 0 else length (checkboxes c)) \<and>
        (list_all (\<lambda>a. a \<notin> set (checkboxes c)) (event_path sa (tree p2)) \<longrightarrow>
           mutations p3 = mutations p2 @
             map (\<lambda>cb. SetChecked cb (\<not> checked (elems p2 sa))) (checkboxes c) @
             [SetTextContent k (spec_counter_text (selected_count c p3))]))"
proof -
  from init_wired[OF f l] s obtain p1 c k where
    i: "init p = Inr (p1, Some c)" and k: "counter c = Some k" and st: "in_step c k p1"
    and sel: "selectAll c = Some sa"
    and H: "\<forall>r. handlers_on r p1 =
         (if r \<in> set (checkboxes c) then [UpdateCounter c] else []) @
         (if selectAll c = Some r then [SelectAllChange c] else [])"
    and A1: "\<forall>(t, h) \<in> set (listeners p1). script_handler c h"
    and A2: "\<forall>cb \<in> set (checkboxes c). cb \<in> fst ` set (listeners p1)"
    by auto
  have reg: "SelectAllChange c \<in> set (handlers_on sa p1)" using H sel by simp
  have step: "\<exists>p2 p3. user_toggles rs p1 = Inr p2 \<and> user_toggle sa p2 = Inr p3 \<and>
        SelectAllChange c \<in> set (handlers_on sa p2) \<and>
        list_all (\<lambda>cb. checked (elems p3 cb) = (\<not> checked (elems p2 sa))) (checkboxes c) \<and>
        textContent k p3 =
          spec_counter_text (if checked (elems p2 sa) then 0 else length (checkboxes c)) \<and>
        (list_all (\<lambda>a. a \<notin> set (checkboxes c)) (event_path sa (tree p2)) \<longrightarrow>
           mutations p3 = mutations p2 @
             map (\<lambda>cb. SetChecked cb (\<not> checked (elems p2 sa))) (checkboxes c) @
             [SetTextContent k (spec_counter_text (selected_count c p3))])" for rs
  proof -
    from user_toggles_script[OF k A1 A2 st, of rs] obtain p2 where
      p2: "user_toggles rs p1 = Inr p2" and l2: "listeners p2 = listeners p1" by blast
    define v where "v = (\<not> checked (elems p2 sa))"
    define q where
      "q = p2\<lparr>elems := (elems p2)(sa := (elems p2 sa)\<lparr>checked := \<not> checked (elems p2 sa)\<rparr>)\<rparr>"
    have lq: "listeners q = listeners p1" and tq: "tree q = tree p2"
      and mq: "mutations q = mutations p2" and vq: "checked (elems q sa) = v"
      by (simp_all add: q_def l2 v_def)
    have Hq: "handlers_on r q =
         (if r \<in> set (checkboxes c) then [UpdateCounter c] else []) @
         (if selectAll c = Some r then [SelectAllChange c] else [])" for r
      using H by (simp add: handlers_on_def lq)
    have H2: "SelectAllChange c \<in> set (handlers_on sa p2)"
      using reg by (simp add: handlers_on_def l2)
    have all: "list_all (script_handler c) (change_handlers sa q)"
      using change_handlers_script[of q c sa] A1 lq by simp
    obtain hs where hs: "change_handlers sa q = handlers_on sa q @ hs"
      using change_handlers_target by blast
    then have mem: "SelectAllChange c \<in> set (change_handlers sa q)"
      using Hq[of sa] sel by simp
    then have ne: "change_handlers sa q \<noteq> []" by auto
    from run_handlers_script[OF k all, of q] ne obtain p3 where
      run: "run_handlers (change_handlers sa q) q = Inr p3" and s3: "in_step c k p3"
      by auto
    have tog: "user_toggle sa p2 = Inr p3"
      using run by (simp add: user_toggle_def q_def Let_def)
    from run_handlers_checked[OF k sel all run] mem vq
    have boxes: "list_all (\<lambda>cb. checked (elems p3 cb) = v) (checkboxes c)" by simp
    have cnt: "selected_count c p3 = (if v then length (checkboxes c) else 0)"
      using boxes by (rule selected_count_uniform)
    have shown: "textContent k p3 =
        spec_counter_text (if checked (elems p2 sa) then 0 else length (checkboxes c))"
      using s3 cnt by (simp add: in_step_def v_def)
    have once: "mutations p3 = mutations p2 @ map (\<lambda>cb. SetChecked cb v) (checkboxes c) @
             [SetTextContent k (spec_counter_text (selected_count c p3))]"
      if path: "list_all (\<lambda>a. a \<notin> set (checkboxes c)) (event_path sa (tree p2))"
    proof -
      obtain as where as: "event_path sa (tree p2) = sa # as" and n: "sa \<notin> set as"
        using event_path_shape by blast
      have "handlers_on a q = []" if "a \<in> set as" for a
        using that path n Hq[of a] sel by (auto simp: as list_all_iff)
      then have "concat (map (\<lambda>n. handlers_on n q) as) = []" by simp
      moreover have "handlers_on sa q = [SelectAllChange c]"
        using path Hq[of sa] sel by (simp add: as)
      ultimately have "change_handlers sa q = [SelectAllChange c]"
        by (simp add: change_handlers_def tq as)
      with run have "selectAll_change c q = Inr p3" by (simp add: bindE_def split: sum.splits)
      then have "p3 = set_textContent k
            (spec_counter_text (if v then length (checkboxes c) else 0))
            (fold (\<lambda>cb. set_checked cb v) (checkboxes c) q)"
        using selectAll_change_Some[OF sel k, of q] vq by simp
      then have "mutations p3 = mutations q @ map (\<lambda>cb. SetChecked cb v) (checkboxes c) @
          [SetTextContent k (spec_counter_text (if v then length (checkboxes c) else 0))]"
        by (simp add: set_textContent_def fold_set_checked_frame)
      then show ?thesis by (simp add: cnt mq)
    qed
    show ?thesis using p2 tog H2 boxes shown once unfolding v_def by blast
  qed
  from i sel k reg step show ?thesis by blast
qed

theorem select_all_toggle_witness:
  "document_querySelector (ClassSel ''history-form'') history_page = Some 2 \<and>
   listeners history_page = [] \<and>
   querySelector 2 (IdSel ''select_all_logs'') history_page = Some 4 \<and>
   (\<exists>p1 c k p3. init history_page = Inr (p1, Some c) \<and> checkboxes c = [5, 6, 7] \<and>
      handlers_on 4 p1 = [SelectAllChange c] \<and> event_path 4 (tree p1) = [4, 3, 2, 1, 0] \<and>
      user_toggle 4 p1 = Inr p3 \<and>
      checked (elems p3 5) \<and> checked (elems p3 6) \<and> checked (elems p3 7) \<and>
      mutations p3 = mutations p1 @
        [SetChecked 5 True, SetChecked 6 True, SetChecked 7 True,
         SetTextContent k (spec_counter_text 3)])"
proof -
  have f: "document_querySelector (ClassSel ''history-form'') history_page = Some 2"
    by (simp add: document_querySelector_def history_page_def el_def log_box_def
        class_tokens_def is_space_def)
  have l: "listeners history_page = []"
    by (simp add: history_page_def)
  have s: "querySelector 2 (IdSel ''select_all_logs'') history_page = Some 4"
    by (simp add: querySelector_def descendants_def subtree_def history_page_def el_def
        log_box_def)
  have n: "document_querySelector (ClassSel ''selected-count'') history_page = None"
    by (simp add: document_querySelector_def history_page_def el_def log_box_def
        class_tokens_def is_space_def)
  have b: "querySelectorAll 2
       (TagAttrSel ''input'' [(''type'', ''checkbox''), (''name'', ''log_ids'')]) history_page
       = [5, 6, 7]"
    by (simp add: querySelectorAll_def descendants_def subtree_def history_page_def el_def
        log_box_def attr_value_matches_def case_insensitive_attrs_def ascii_lower_def)
  have c4: "\<not> checked (elems history_page 4)"
    by (simp add: history_page_def el_def)
  from select_all_toggle_sets_all_then_recomputes_once [OF f l s] obtain p1 c k where
    i: "init history_page = Inr (p1, Some c)" and sel: "selectAll c = Some 4"
    and k: "counter c = Some k"
    and T: "\<forall>rs. \<exists>p2 p3. user_toggles rs p1 = Inr p2 \<and> user_toggle 4 p2 = Inr p3 \<and>
        SelectAllChange c \<in> set (handlers_on 4 p2) \<and>
        list_all (\<lambda>cb. checked (elems p3 cb) = (\<not> checked (elems p2 4))) (checkboxes c) \<and>
        textContent k p3 =
          spec_counter_text (if checked (elems p2 4) then 0 else length (checkboxes c)) \<and>
        (list_all (\<lambda>a. a \<notin> set (checkboxes c)) (event_path 4 (tree p2)) \<longrightarrow>
           mutations p3 = mutations p2 @
             map (\<lambda>cb. SetChecked cb (\<not> checked (elems p2 4))) (checkboxes c) @
             [SetTextContent k (spec_counter_text (selected_count c p3))])"
    by blast
  from init_found [OF f] i n have
    cb: "checkboxes c = [5, 6, 7]"
    and inst: "install_listeners c (set_textContent (next_ref history_page)
       (spec_counter_text (selected_count c (snd (create_counter 2 history_page))))
       (snd (create_counter 2 history_page))) = Inr p1"
    by (auto simp: b)
  define q where "q = set_textContent (next_ref history_page)
       (spec_counter_text (selected_count c (snd (create_counter 2 history_page))))
       (snd (create_counter 2 history_page))"
  have lq: "listeners q = []"
    by (simp add: q_def set_textContent_def create_counter_eq history_page_def)
  from install_listeners_ok [of c q] inst have
    t1: "tree p1 = tree q" and e1: "elems p1 = elems q" by (auto simp: q_def)
  have h4: "handlers_on 4 p1 = [SelectAllChange c]"
    using handlers_on_install [OF inst [folded q_def] lq, of 4] sel cb by simp
  have pth: "event_path 4 (tree p1) = [4, 3, 2, 1, 0]"
    by (simp add: t1 q_def set_textContent_def create_counter_eq history_page_def
        event_path_def)
  have c1: "\<not> checked (elems p1 4)"
    using c4 by (simp add: e1 q_def set_textContent_def create_counter_eq history_page_def)
  from T [rule_format, of "[]"] obtain p3 where
    t: "user_toggle 4 p1 = Inr p3"
    and boxes: "list_all (\<lambda>cb. checked (elems p3 cb) = (\<not> checked (elems p1 4))) (checkboxes c)"
    and m: "list_all (\<lambda>a. a \<notin> set (checkboxes c)) (event_path 4 (tree p1)) \<longrightarrow>
           mutations p3 = mutations p1 @
             map (\<lambda>cb. SetChecked cb (\<not> checked (elems p1 4))) (checkboxes c) @
             [SetTextContent k (spec_counter_text (selected_count c p3))]"
    by auto
  from boxes c1 cb have bx: "checked (elems p3 5) \<and> checked (elems p3 6) \<and> checked (elems p3 7)"
    by simp
  then have "selected_count c p3 = 3" by (simp add: selected_count_def cb)
  with m c1 have "mutations p3 = mutations p1 @
        [SetChecked 5 True, SetChecked 6 True, SetChecked 7 True,
         SetTextContent k (spec_counter_text 3)]"
    by (simp add: pth cb)
  with f l s i cb h4 pth t bx show ?thesis by blast
qed

text \<open>
  Claim C3, as the code has it. The counter node is looked up in the whole document, not
  in the form: the counter is the first element of the document carrying the class
  \<^verbatim>\<open>selected-count\<close>, and a new element is made exactly when the document has none.
\<close>

theorem counter_lookup_searches_document:
  assumes "document_querySelector (ClassSel ''history-form'') p = Some f"
  shows "\<exists>p' c m. init p = Inr (p', Some c) \<and>
     counter c = Some (case document_querySelector (ClassSel ''selected-count'') p of
                         Some k \<Rightarrow> k | None \<Rightarrow> next_ref p) \<and>
     mutations p' = mutations p @ m \<and>
     created m = (case document_querySelector (ClassSel ''selected-count'') p of
                    Some k \<Rightarrow> [] | None \<Rightarrow> [next_ref p])"
proof -
  from init_found[OF assms] obtain c k p0 p1 where
    i: "init p = Inr (p1, Some c)" and k: "counter c = Some k"
    and kp: "(k, p0) = (case document_querySelector (ClassSel ''selected-count'') p of
                   Some x \<Rightarrow> (x, p) | None \<Rightarrow> (next_ref p, snd (create_counter f p)))"
    and inst: "install_listeners c (set_textContent k (spec_counter_text (selected_count c p0)) p0) = Inr p1"
    by auto
  from install_listeners_ok[of c "set_textContent k (spec_counter_text (selected_count c p0)) p0"] inst
  have m: "mutations p1 = mutations p0 @ [SetTextContent k (spec_counter_text (selected_count c p0))]"
    by (auto simp: set_textContent_def)
  show ?thesis
  proof (cases "document_querySelector (ClassSel ''selected-count'') p")
    case None
    with kp have "k = next_ref p" and "p0 = snd (create_counter f p)" by simp_all
    with i k m None show ?thesis by (simp add: create_counter_eq)
  next
    case (Some x)
    with kp have "k = x" and "p0 = p" by simp_all
    with i k m Some show ?thesis by simp
  qed
qed

theorem counter_lookup_searches_document_witness:
  "document_querySelector (ClassSel ''history-form'') header_counter_page = Some 3 \<and>
   (\<exists>p' c m. init header_counter_page = Inr (p', Some c) \<and> counter c = Some 2 \<and>
      mutations p' = mutations header_counter_page @ m \<and> created m = [])"
proof -
  have f: "document_querySelector (ClassSel ''history-form'') header_counter_page = Some 3"
    by (simp add: document_querySelector_def header_counter_page_def el_def log_box_def
        class_tokens_def is_space_def)
  have k: "document_querySelector (ClassSel ''selected-count'') header_counter_page = Some 2"
    by (simp add: document_querySelector_def header_counter_page_def el_def log_box_def
        class_tokens_def is_space_def)
  show ?thesis using counter_lookup_searches_document [OF f] f by (simp add: k)
qed

text \<open>
  Claim C3 as stated (the lookup searches the form, and a node is made when the form holds
  none) fails on the page whose header holds the counter: the form (element 3) holds no
  \<^verbatim>\<open>.selected-count\<close> element, yet the handler makes none; it takes element 2 of the
  header as the counter, and all it changes in the document is the text of that element.
\<close>

theorem counter_lookup_searches_form_counterexample:
  "document_querySelector (ClassSel ''history-form'') header_counter_page = Some 3 \<and>
   querySelector 3 (ClassSel ''selected-count'') header_counter_page = None \<and>
   init header_counter_page =
     Inr ((set_textContent 2 (spec_counter_text 2) header_counter_page)
            \<lparr>listeners := [(5, UpdateCounter header_counter_closure),
                           (6, UpdateCounter header_counter_closure),
                           (4, SelectAllChange header_counter_closure)]\<rparr>,
          Some header_counter_closure)"
proof -
  have f: "document_querySelector (ClassSel ''history-form'') header_counter_page = Some 3"
    by (simp add: document_querySelector_def header_counter_page_def el_def log_box_def
        class_tokens_def is_space_def)
  have k: "document_querySelector (ClassSel ''selected-count'') header_counter_page = Some 2"
    by (simp add: document_querySelector_def header_counter_page_def el_def log_box_def
        class_tokens_def is_space_def)
  have d: "descendants 3 (tree header_counter_page) = [4, 5, 6]"
    by (simp add: descendants_def subtree_def header_counter_page_def)
  have e: "elems header_counter_page 4 =
        el ''input'' ''select_all_logs'' [] [(''type'', ''checkbox'')] True"
      "elems header_counter_page 5 = log_box True"
      "elems header_counter_page 6 = log_box True"
    by (simp_all add: header_counter_page_def)
  have n: "querySelector 3 (ClassSel ''selected-count'') header_counter_page = None"
    by (simp add: querySelector_def d e el_def log_box_def class_tokens_def)
  have t: "querySelector 3 (ClassSel ''table-history'') header_counter_page = None"
    by (simp add: querySelector_def d e el_def log_box_def class_tokens_def)
  have s: "querySelector 3 (IdSel ''select_all_logs'') header_counter_page = Some 4"
    by (simp add: querySelector_def d e el_def log_box_def)
  have b: "querySelectorAll 3
       (TagAttrSel ''input'' [(''type'', ''checkbox''), (''name'', ''log_ids'')])
       header_counter_page = [5, 6]"
    by (simp add: querySelectorAll_def d e el_def log_box_def attr_value_matches_def
        case_insensitive_attrs_def)
  have c: "\<lparr>historyForm = Some 3, table = None, checkboxes = [5, 6], selectAll = Some 4,
       counter = Some 2\<rparr> = header_counter_closure"
    by (simp add: header_counter_closure_def)
  have kc: "counter header_counter_closure = Some 2"
    and cc: "checkboxes header_counter_closure = [5, 6]"
    and sc: "selectAll header_counter_closure = Some 4"
    by (simp_all add: header_counter_closure_def)
  have m: "selected_count header_counter_closure header_counter_page = 2"
    by (simp add: selected_count_def cc e log_box_def el_def)
  have l: "listeners (set_textContent 2 (spec_counter_text 2) header_counter_page) = []"
    by (simp add: set_textContent_def header_counter_page_def)
  have i: "install_listeners header_counter_closure
        (set_textContent 2 (spec_counter_text 2) header_counter_page) =
      Inr ((set_textContent 2 (spec_counter_text 2) header_counter_page)
            \<lparr>listeners := [(5, UpdateCounter header_counter_closure),
                           (6, UpdateCounter header_counter_closure),
                           (4, SelectAllChange header_counter_closure)]\<rparr>)"
    by (simp add: install_listeners_def cc sc addEventListener_def l bindE_def deref_def)
  have "init header_counter_page =
     Inr ((set_textContent 2 (spec_counter_text 2) header_counter_page)
            \<lparr>listeners := [(5, UpdateCounter header_counter_closure),
                           (6, UpdateCounter header_counter_closure),
                           (4, SelectAllChange header_counter_closure)]\<rparr>,
          Some header_counter_closure)"
    by (simp add: init_def f k t s b c bindE_def deref_def updateCounter_Some [OF kc] m i)
  with f n show ?thesis by simp
qed

text \<open>
  Claim C4. On a page with no \<^verbatim>\<open>.history-form\<close> element the handler returns without an
  error and leaves the page as it was: the tree, the elements, the listeners and the list
  of mutations are unchanged, and no variable is bound.
\<close>

theorem init_without_form_does_nothing:
  assumes "document_querySelector (ClassSel ''history-form'') p = None"
  shows "init p = Inr (p, None)"
  using assms by (simp add: init_def)

theorem init_without_form_witness:
  "document_querySelector (ClassSel ''history-form'') other_page = None \<and>
   init other_page = Inr (other_page, None)"
proof -
  have n: "document_querySelector (ClassSel ''history-form'') other_page = None"
    by (simp add: document_querySelector_def other_page_def el_def class_tokens_def is_space_def)
  show ?thesis using init_without_form_does_nothing [OF n] n by simp
qed

text \<open>
  Claim C5. When the document has no \<^verbatim>\<open>.selected-count\<close> element, the handler creates
  one element, a \<^verbatim>\<open>div\<close>, gives it the class \<^verbatim>\<open>selected-count\<close> and the three inline
  styles (top margin, font size, colour), and appends it to the form as its last child; the
  only mutations are this creation, these four assignments, the append and the first
  writing of the text.
\<close>

theorem init_creates_one_counter:
  assumes "refs_allocated p"
    and "document_querySelector (ClassSel ''history-form'') p = Some f"
    and "document_querySelector (ClassSel ''selected-count'') p = None"
  shows "\<exists>p' c ks. init p = Inr (p', Some c) \<and> counter c = Some (next_ref p) \<and>
     next_ref p \<notin> set (elements (tree p)) \<and>
     mutations p' = mutations p @
       [CreateElement (next_ref p) ''div'', SetClassName (next_ref p) ''selected-count'',
        SetStyle (next_ref p) ''marginTop'' ''0.4rem'',
        SetStyle (next_ref p) ''fontSize'' ''0.8rem'',
        SetStyle (next_ref p) ''color'' ''rgba(209, 213, 219, 0.9)'',
        AppendChild f (next_ref p),
        SetTextContent (next_ref p) (spec_counter_text (selected_count c p'))] \<and>
     tagName (elems p' (next_ref p)) = ''div'' \<and>
     className (elems p' (next_ref p)) = ''selected-count'' \<and>
     matches (elems p' (next_ref p)) (ClassSel ''selected-count'') \<and>
     style (elems p' (next_ref p)) =
       [(''marginTop'', ''0.4rem''), (''fontSize'', ''0.8rem''),
        (''color'', ''rgba(209, 213, 219, 0.9)'')] \<and>
     subtree f (tree p) = Some (Node f ks) \<and>
     subtree f (tree p') = Some (Node f (ks @ [Node (next_ref p) []]))"
proof -
  define n where "n = next_ref p"
  from init_found[OF assms(2)] assms(3) obtain c p1 where
    i: "init p = Inr (p1, Some c)" and k: "counter c = Some n"
    and inst: "install_listeners c (set_textContent n
        (spec_counter_text (selected_count c (snd (create_counter f p)))) (snd (create_counter f p))) = Inr p1"
    by (auto simp: n_def)
  define p0 where "p0 = snd (create_counter f p)"
  define q where "q = set_textContent n (spec_counter_text (selected_count c p0)) p0"
  from install_listeners_ok[of c q] inst obtain
    t: "tree p1 = tree q" and e: "elems p1 = elems q" and m: "mutations p1 = mutations q"
    by (auto simp: q_def p0_def)
  have fresh: "n \<notin> set (elements (tree p))"
    using assms(1) by (auto simp: refs_allocated_def list_all_iff n_def)
  have fin: "f \<in> set (elements (tree p))"
    using document_querySelector_Some[OF assms(2)] by simp
  then obtain ks where ks: "subtree f (tree p) = Some (Node f ks)"
    using subtree_of_element by blast
  have tq: "tree q = append_kid f (Node n []) (tree p)"
    using fresh by (simp add: q_def p0_def create_counter_eq set_textContent_def n_def
        set_kids_append_fresh)
  have sub: "subtree f (tree p1) = Some (Node f (ks @ [Node n []]))"
    using ks by (simp add: t tq subtree_append_kid)
  have sc: "selected_count c p1 = selected_count c p0"
    by (simp add: selected_count_def e q_def checked_set_textContent)
  have mq: "mutations p1 = mutations p @
       [CreateElement n ''div'', SetClassName n ''selected-count'',
        SetStyle n ''marginTop'' ''0.4rem'', SetStyle n ''fontSize'' ''0.8rem'',
        SetStyle n ''color'' ''rgba(209, 213, 219, 0.9)'', AppendChild f n,
        SetTextContent n (spec_counter_text (selected_count c p1))]"
    unfolding sc by (simp add: m q_def set_textContent_def) (simp add: p0_def create_counter_eq n_def)
  have el: "elems p1 n =
     \<lparr>tagName = ''div'', ident = [], className = ''selected-count'', attrs = [],
      checked = False,
      style = [(''marginTop'', ''0.4rem''), (''fontSize'', ''0.8rem''),
               (''color'', ''rgba(209, 213, 219, 0.9)'')],
      ownText = spec_counter_text (selected_count c p0)\<rparr>"
    by (simp add: e q_def set_textContent_def) (simp add: p0_def create_counter_eq n_def)
  have mt: "matches (elems p1 n) (ClassSel ''selected-count'')"
    by (simp add: el class_tokens_def is_space_def)
  show ?thesis
    using i k fresh mq el mt ks sub unfolding n_def by simp
qed

theorem init_creates_one_counter_witness:
  "refs_allocated history_page \<and>
   document_querySelector (ClassSel ''history-form'') history_page = Some 2 \<and>
   document_querySelector (ClassSel ''selected-count'') history_page = None \<and>
   (\<exists>p' c. init history_page = Inr (p', Some c) \<and> counter c = Some 8 \<and>
      created (mutations p') = [8] \<and>
      className (elems p' 8) = ''selected-count'' \<and>
      subtree 2 (tree p') =
        Some (Node 2 [Node 3 [Node 4 [], Node 5 [], Node 6 [], Node 7 []], Node 8 []]))"
proof -
  have a: "refs_allocated history_page"
    by (simp add: refs_allocated_def history_page_def)
  have f: "document_querySelector (ClassSel ''history-form'') history_page = Some 2"
    by (simp add: document_querySelector_def history_page_def el_def log_box_def
        class_tokens_def is_space_def)
  have n: "document_querySelector (ClassSel ''selected-count'') history_page = None"
    by (simp add: document_querySelector_def history_page_def el_def log_box_def
        class_tokens_def is_space_def)
  have nx: "next_ref history_page = 8" "mutations history_page = []"
    by (simp_all add: history_page_def)
  have s: "subtree 2 (tree history_page) =
      Some (Node 2 [Node 3 [Node 4 [], Node 5 [], Node 6 [], Node 7 []]])"
    by (simp add: subtree_def history_page_def)
  show ?thesis
    using init_creates_one_counter [OF a f n] a f n by (auto simp: nx s)
qed

text \<open>
  Claim C6. On a page that has the form and on which no listener is installed yet, the
  start-up returns, and after it and after every sequence of user toggles the counter shows
  the text of the rule for the states the checkboxes of the snapshot then have. The
  start-up extends the mutations by a list that ends with the writing of that text, and so
  does every toggle of a checkbox of the snapshot or of the select-all control, whatever
  toggles came before.
\<close>

theorem counter_text_tracks_checkboxes:
  assumes "document_querySelector (ClassSel ''history-form'') p = Some f"
    and "listeners p = []"
  shows "\<exists>p1 c k ms0. init p = Inr (p1, Some c) \<and> counter c = Some k \<and>
     textContent k p1 = spec_counter_text (selected_count c p1) \<and>
     mutations p1 = mutations p @ ms0 @
       [SetTextContent k (spec_counter_text (selected_count c p1))] \<and>
     (\<forall>rs. \<exists>p2. user_toggles rs p1 = Inr p2 \<and>
        textContent k p2 = spec_counter_text (selected_count c p2)) \<and>
     (\<forall>rs r. r \<in> set (checkboxes c) \<or> selectAll c = Some r \<longrightarrow>
        (\<exists>p2 p3 ms. user_toggles rs p1 = Inr p2 \<and> user_toggle r p2 = Inr p3 \<and>
           mutations p3 = mutations p2 @ ms @
             [SetTextContent k (spec_counter_text (selected_count c p3))]))"
proof -
  from init_wired[OF assms] obtain p1 c k ms0 where
    i: "init p = Inr (p1, Some c)" and k: "counter c = Some k" and s: "in_step c k p1"
    and m: "mutations p1 = mutations p @ ms0 @
        [SetTextContent k (spec_counter_text (selected_count c p1))]"
    and A1: "\<forall>(t, h) \<in> set (listeners p1). script_handler c h"
    and A2: "\<forall>cb \<in> set (checkboxes c). cb \<in> fst ` set (listeners p1)"
    and A3: "\<forall>sa. selectAll c = Some sa \<longrightarrow> sa \<in> fst ` set (listeners p1)"
    by blast
  have T: "\<exists>p2. user_toggles rs p1 = Inr p2 \<and> listeners p2 = listeners p1 \<and> in_step c k p2" for rs
    using user_toggles_script[OF k A1 A2 s] by simp
  have U: "\<exists>p2 p3 ms. user_toggles rs p1 = Inr p2 \<and> user_toggle r p2 = Inr p3 \<and>
           mutations p3 = mutations p2 @ ms @
             [SetTextContent k (spec_counter_text (selected_count c p3))]"
    if r: "r \<in> set (checkboxes c) \<or> selectAll c = Some r" for rs r
  proof -
    from T[of rs] obtain p2 where
      p2: "user_toggles rs p1 = Inr p2" "listeners p2 = listeners p1" "in_step c k p2" by blast
    have rl: "r \<in> fst ` set (listeners p2)" using r A2 A3 p2(2) by auto
    from user_toggle_script[OF k _ _ p2(3), of r] A1 A2 p2(2) rl obtain p3 ms where
      "user_toggle r p2 = Inr p3"
      "mutations p3 = mutations p2 @ ms @
         [SetTextContent k (spec_counter_text (selected_count c p3))]"
      by auto
    with p2 show ?thesis by blast
  qed
  from T have T': "\<forall>rs. \<exists>p2. user_toggles rs p1 = Inr p2 \<and>
        textContent k p2 = spec_counter_text (selected_count c p2)"
    by (auto simp: in_step_def)
  from i k s m T' U show ?thesis unfolding in_step_def by blast
qed

theorem counter_text_tracks_checkboxes_witness:
  "document_querySelector (ClassSel ''history-form'') history_page = Some 2 \<and>
   listeners history_page = [] \<and>
   (\<exists>p1 c k. init history_page = Inr (p1, Some c) \<and> counter c = Some k \<and>
      checkboxes c = [5, 6, 7] \<and> selectAll c = Some 4 \<and>
      textContent k p1 = spec_counter_text (selected_count c p1) \<and>
      (\<exists>p2. user_toggles [5, 4, 4, 6] p1 = Inr p2 \<and>
         textContent k p2 = spec_counter_text (selected_count c p2)) \<and>
      (\<exists>p2 p3 ms. user_toggles [5] p1 = Inr p2 \<and> user_toggle 4 p2 = Inr p3 \<and>
         mutations p3 = mutations p2 @ ms @
           [SetTextContent k (spec_counter_text (selected_count c p3))]) \<and>
      (\<exists>p2 p3 ms. user_toggles [4] p1 = Inr p2 \<and> user_toggle 7 p2 = Inr p3 \<and>
         mutations p3 = mutations p2 @ ms @
           [SetTextContent k (spec_counter_text (selected_count c p3))]))"
proof -
  have f: "document_querySelector (ClassSel ''history-form'') history_page = Some 2"
    by (simp add: document_querySelector_def history_page_def el_def log_box_def
        class_tokens_def is_space_def)
  have l: "listeners history_page = []"
    by (simp add: history_page_def)
  from counter_text_tracks_checkboxes [OF f l] obtain p1 c k where
    i: "init history_page = Inr (p1, Some c)" and k: "counter c = Some k"
    and s: "textContent k p1 = spec_counter_text (selected_count c p1)"
    and T: "\<forall>rs. \<exists>p2. user_toggles rs p1 = Inr p2 \<and>
        textContent k p2 = spec_counter_text (selected_count c p2)"
    and U: "\<forall>rs r. r \<in> set (checkboxes c) \<or> selectAll c = Some r \<longrightarrow>
        (\<exists>p2 p3 ms. user_toggles rs p1 = Inr p2 \<and> user_toggle r p2 = Inr p3 \<and>
           mutations p3 = mutations p2 @ ms @
             [SetTextContent k (spec_counter_text (selected_count c p3))])"
    by blast
  from init_found [OF f] i have
    "checkboxes c = querySelectorAll 2
       (TagAttrSel ''input'' [(''type'', ''checkbox''), (''name'', ''log_ids'')]) history_page"
    and "selectAll c = querySelector 2 (IdSel ''select_all_logs'') history_page"
    by auto
  then have c: "checkboxes c = [5, 6, 7]" "selectAll c = Some 4"
    by (simp_all add: querySelectorAll_def querySelector_def descendants_def subtree_def
        history_page_def el_def log_box_def attr_value_matches_def case_insensitive_attrs_def
        ascii_lower_def)
  from U c(2) have u1:
    "\<exists>p2 p3 ms. user_toggles [5] p1 = Inr p2 \<and> user_toggle 4 p2 = Inr p3 \<and>
       mutations p3 = mutations p2 @ ms @
         [SetTextContent k (spec_counter_text (selected_count c p3))]"
    by blast
  have "7 \<in> set (checkboxes c)" by (simp add: c)
  with U have u2:
    "\<exists>p2 p3 ms. user_toggles [4] p1 = Inr p2 \<and> user_toggle 7 p2 = Inr p3 \<and>
       mutations p3 = mutations p2 @ ms @
         [SetTextContent k (spec_counter_text (selected_count c p3))]"
    by blast
  from f l i k s T c u1 u2 show ?thesis by blast
qed

text \<open>
  Claim C7. \<open>updateCounter\<close> is idempotent: called twice in a row, the second call
  returns too and leaves the counter's text, the elements and the tree as the first call
  left them.
\<close>

theorem updateCounter_idempotent:
  assumes "counter c = Some k"
  shows "\<exists>p1 p2. updateCounter c p = Inr p1 \<and> updateCounter c p1 = Inr p2 \<and>
           textContent k p2 = textContent k p1 \<and> tree p2 = tree p1 \<and> elems p2 = elems p1"
proof -
  define s where "s = spec_counter_text (selected_count c p)"
  define p1 where "p1 = set_textContent k s p"
  have 1: "updateCounter c p = Inr p1"
    using assms by (simp add: updateCounter_Some p1_def s_def)
  have n: "selected_count c p1 = selected_count c p"
    by (simp add: p1_def selected_count_set_textContent)
  have 2: "updateCounter c p1 = Inr (set_textContent k s p1)"
    using assms by (simp add: updateCounter_Some n s_def)
  have "textContent k (set_textContent k s p1) = textContent k p1"
    by (simp add: p1_def textContent_set_textContent)
  moreover have "tree (set_textContent k s p1) = tree p1"
    by (simp add: p1_def set_textContent_def set_kids_idem)
  moreover have "elems (set_textContent k s p1) = elems p1"
    by (simp add: p1_def set_textContent_def)
  ultimately show ?thesis using 1 2 by blast
qed

theorem updateCounter_idempotent_witness:
  "counter header_counter_closure = Some 2 \<and>
   (\<exists>p1 p2. updateCounter header_counter_closure header_counter_page = Inr p1 \<and>
      updateCounter header_counter_closure p1 = Inr p2 \<and>
      textContent 2 p2 = textContent 2 p1 \<and> tree p2 = tree p1 \<and> elems p2 = elems p1)"
proof -
  have k: "counter header_counter_closure = Some 2"
    by (simp add: header_counter_closure_def)
  show ?thesis using updateCounter_idempotent [OF k, of header_counter_page] k by simp
qed

text \<open>
  Claim C8. On a page with the form but no \<^verbatim>\<open>log_ids\<close> checkbox the handler runs to its
  end without an error, and the counter is an element of the document showing the sentence
  for no record. When the document had no \<^verbatim>\<open>.selected-count\<close> element the counter is
  the one element created, it carries the class and the three inline styles, and it is
  the last child of the form; otherwise it is the element found and nothing is created.
  When the select-all control is missing no listener is installed.
\<close>

theorem init_without_checkboxes:
  assumes "document_querySelector (ClassSel ''history-form'') p = Some f"
    and "querySelectorAll f
           (TagAttrSel ''input'' [(''type'', ''checkbox''), (''name'', ''log_ids'')]) p = []"
  shows "\<exists>p' c k. init p = Inr (p', Some c) \<and> counter c = Some k \<and> checkboxes c = [] \<and>
     k \<in> set (elements (tree p')) \<and>
     textContent k p' =
       [1053, 1080, 32, 1086, 1076, 1085, 1086, 1081, 32, 1079, 1072, 1087, 1080, 1089, 1080,
        32, 1085, 1077, 32, 1074, 1099, 1073, 1088, 1072, 1085, 1086, 46] \<and>
     (document_querySelector (ClassSel ''selected-count'') p = None \<longrightarrow>
        k = next_ref p \<and> created (mutations p') = created (mutations p) @ [k] \<and>
        className (elems p' k) = ''selected-count'' \<and>
        matches (elems p' k) (ClassSel ''selected-count'') \<and>
        style (elems p' k) =
          [(''marginTop'', ''0.4rem''), (''fontSize'', ''0.8rem''),
           (''color'', ''rgba(209, 213, 219, 0.9)'')] \<and>
        (refs_allocated p \<longrightarrow>
           (\<exists>ks. subtree f (tree p) = Some (Node f ks) \<and>
                 subtree f (tree p') = Some (Node f (ks @ [Node k []]))))) \<and>
     (document_querySelector (ClassSel ''selected-count'') p \<noteq> None \<longrightarrow>
        document_querySelector (ClassSel ''selected-count'') p = Some k \<and>
        created (mutations p') = created (mutations p)) \<and>
     (querySelector f (IdSel ''select_all_logs'') p = None \<longrightarrow> listeners p' = listeners p)"
proof -
  from init_found[OF assms(1)] assms(2) obtain c k p0 p1 where
    i: "init p = Inr (p1, Some c)" and k: "counter c = Some k" and cb: "checkboxes c = []"
    and sa: "selectAll c = querySelector f (IdSel ''select_all_logs'') p"
    and kp: "(k, p0) = (case document_querySelector (ClassSel ''selected-count'') p of
                   Some x \<Rightarrow> (x, p) | None \<Rightarrow> (next_ref p, snd (create_counter f p)))"
    and inst: "install_listeners c (set_textContent k (spec_counter_text (selected_count c p0)) p0) = Inr p1"
    by auto
  have z: "selected_count c p0 = 0" by (simp add: selected_count_def cb)
  define q where "q = set_textContent k (spec_counter_text 0) p0"
  from install_listeners_ok[of c q] inst z obtain
    t: "tree p1 = tree q" and e: "elems p1 = elems q" and m: "mutations p1 = mutations q"
    by (auto simp: q_def)
  have tq: "tree q = set_kids k [] (tree p0)" by (simp add: q_def set_textContent_def)
  have "textContent k p1 = textContent k q" by (rule textContent_cong) (simp_all add: t e)
  then have shown: "textContent k p1 = spec_counter_text 0"
    by (simp add: q_def textContent_set_textContent)
  have mq: "mutations q = mutations p0 @ [SetTextContent k (spec_counter_text 0)]"
    by (simp add: q_def set_textContent_def)
  have fin: "f \<in> set (elements (tree p))"
    using document_querySelector_Some[OF assms(1)] by simp
  have "k \<in> set (elements (tree p0))"
  proof (cases "document_querySelector (ClassSel ''selected-count'') p")
    case None
    with kp have "k = next_ref p" "p0 = snd (create_counter f p)" by simp_all
    then show ?thesis using fin by (simp add: create_counter_eq elements_append_kid)
  next
    case (Some x)
    with kp have "k = x" "p0 = p" by simp_all
    then show ?thesis using document_querySelector_Some[OF Some] by simp
  qed
  then have inside: "k \<in> set (elements (tree p1))"
    by (simp add: t tq elements_set_kids)
  have cr: "document_querySelector (ClassSel ''selected-count'') p = None \<longrightarrow>
        k = next_ref p \<and> created (mutations p1) = created (mutations p) @ [k] \<and>
        className (elems p1 k) = ''selected-count'' \<and>
        matches (elems p1 k) (ClassSel ''selected-count'') \<and>
        style (elems p1 k) =
          [(''marginTop'', ''0.4rem''), (''fontSize'', ''0.8rem''),
           (''color'', ''rgba(209, 213, 219, 0.9)'')] \<and>
        (refs_allocated p \<longrightarrow>
           (\<exists>ks. subtree f (tree p) = Some (Node f ks) \<and>
                 subtree f (tree p1) = Some (Node f (ks @ [Node k []]))))"
  proof
    assume none: "document_querySelector (ClassSel ''selected-count'') p = None"
    from none kp have kn: "k = next_ref p" and p0: "p0 = snd (create_counter f p)"
      by simp_all
    have c1: "created (mutations p1) = created (mutations p) @ [k]"
      by (simp add: m mq created_append p0 kn create_counter_eq)
    have el: "className (elems p1 k) = ''selected-count'' \<and>
        style (elems p1 k) =
          [(''marginTop'', ''0.4rem''), (''fontSize'', ''0.8rem''),
           (''color'', ''rgba(209, 213, 219, 0.9)'')]"
      by (simp add: e q_def set_textContent_def) (simp add: p0 kn create_counter_eq)
    then have mt: "matches (elems p1 k) (ClassSel ''selected-count'')"
      by (simp add: class_tokens_def is_space_def)
    have last: "\<exists>ks. subtree f (tree p) = Some (Node f ks) \<and>
                 subtree f (tree p1) = Some (Node f (ks @ [Node k []]))"
      if a: "refs_allocated p"
    proof -
      have fresh: "k \<notin> set (elements (tree p))"
        using a by (auto simp: refs_allocated_def list_all_iff kn)
      obtain ks where ks: "subtree f (tree p) = Some (Node f ks)"
        using fin subtree_of_element by blast
      have "tree p1 = append_kid f (Node k []) (tree p)"
        using fresh by (simp add: t tq p0 create_counter_eq kn [symmetric] set_kids_append_fresh)
      with ks show ?thesis by (simp add: subtree_append_kid)
    qed
    show "k = next_ref p \<and> created (mutations p1) = created (mutations p) @ [k] \<and>
        className (elems p1 k) = ''selected-count'' \<and>
        matches (elems p1 k) (ClassSel ''selected-count'') \<and>
        style (elems p1 k) =
          [(''marginTop'', ''0.4rem''), (''fontSize'', ''0.8rem''),
           (''color'', ''rgba(209, 213, 219, 0.9)'')] \<and>
        (refs_allocated p \<longrightarrow>
           (\<exists>ks. subtree f (tree p) = Some (Node f ks) \<and>
                 subtree f (tree p1) = Some (Node f (ks @ [Node k []]))))"
      using kn c1 el mt last by blast
  qed
  have reuse: "document_querySelector (ClassSel ''selected-count'') p \<noteq> None \<longrightarrow>
        document_querySelector (ClassSel ''selected-count'') p = Some k \<and>
        created (mutations p1) = created (mutations p)"
    using kp by (auto simp: m mq created_append)
  have ls: "querySelector f (IdSel ''select_all_logs'') p = None \<longrightarrow>
      listeners p1 = listeners p"
  proof
    assume that: "querySelector f (IdSel ''select_all_logs'') p = None"
    from that sa have "selectAll c = None" by simp
    with inst z cb have "p1 = q" by (simp add: install_listeners_none q_def)
    moreover have "listeners p0 = listeners p"
      using kp by (auto simp: create_counter_eq split: option.splits)
    ultimately show "listeners p1 = listeners p" by (simp add: q_def set_textContent_def)
  qed
  have "spec_counter_text 0 =
       [1053, 1080, 32, 1086, 1076, 1085, 1086, 1081, 32, 1079, 1072, 1087, 1080, 1089, 1080,
        32, 1085, 1077, 32, 1074, 1099, 1073, 1088, 1072, 1085, 1086, 46]"
    by (simp add: spec_counter_text_def)
  with shown have shown': "textContent k p1 =
       [1053, 1080, 32, 1086, 1076, 1085, 1086, 1081, 32, 1079, 1072, 1087, 1080, 1089, 1080,
        32, 1085, 1077, 32, 1074, 1099, 1073, 1088, 1072, 1085, 1086, 46]" by simp
  show ?thesis
    by (intro exI [of _ p1] exI [of _ c] exI [of _ k] conjI i k cb inside shown' cr reuse ls)
qed

theorem init_without_checkboxes_witness:
  "document_querySelector (ClassSel ''history-form'') empty_history_page = Some 2 \<and>
   querySelectorAll 2 (TagAttrSel ''input'' [(''type'', ''checkbox''), (''name'', ''log_ids'')])
     empty_history_page = [] \<and>
   (\<exists>p' c. init empty_history_page = Inr (p', Some c) \<and> counter c = Some 4 \<and>
      4 \<in> set (elements (tree p')) \<and>
      textContent 4 p' =
       [1053, 1080, 32, 1086, 1076, 1085, 1086, 1081, 32, 1079, 1072, 1087, 1080, 1089, 1080,
        32, 1085, 1077, 32, 1074, 1099, 1073, 1088, 1072, 1085, 1086, 46] \<and>
      created (mutations p') = [4] \<and> className (elems p' 4) = ''selected-count'' \<and>
      subtree 2 (tree p') = Some (Node 2 [Node 3 [], Node 4 []]) \<and> listeners p' = [])"
proof -
  have f: "document_querySelector (ClassSel ''history-form'') empty_history_page = Some 2"
    by (simp add: document_querySelector_def empty_history_page_def el_def
        class_tokens_def is_space_def)
  have z: "querySelectorAll 2
      (TagAttrSel ''input'' [(''type'', ''checkbox''), (''name'', ''log_ids'')])
      empty_history_page = []"
    by (simp add: querySelectorAll_def descendants_def subtree_def empty_history_page_def el_def)
  have n: "document_querySelector (ClassSel ''selected-count'') empty_history_page = None"
    by (simp add: document_querySelector_def empty_history_page_def el_def
        class_tokens_def is_space_def)
  have s: "querySelector 2 (IdSel ''select_all_logs'') empty_history_page = None"
    by (simp add: querySelector_def descendants_def subtree_def empty_history_page_def el_def)
  have a: "refs_allocated empty_history_page"
    by (simp add: refs_allocated_def empty_history_page_def)
  have x: "next_ref empty_history_page = 4" "mutations empty_history_page = []"
      "listeners empty_history_page = []"
      "subtree 2 (tree empty_history_page) = Some (Node 2 [Node 3 []])"
    by (simp_all add: empty_history_page_def subtree_def)
  show ?thesis
    using init_without_checkboxes [OF f z] f z by (auto simp: n s x a)
qed

text \<open>
  Claim C9. \<open>updateCounter\<close> changes only the text of the counter node: the
  \<^verbatim>\<open>checked\<close> state of every element (the checkboxes of the snapshot and the select-all
  control among them) is what it was, every element other than the counter is unchanged,
  the counter differs only in its text, and the single mutation is that assignment.
\<close>

theorem updateCounter_changes_only_the_counter_text:
  assumes "counter c = Some k"
  shows "\<exists>p' s. updateCounter c p = Inr p' \<and>
     (\<forall>r. checked (elems p' r) = checked (elems p r)) \<and>
     (\<forall>r. r \<noteq> k \<longrightarrow> elems p' r = elems p r) \<and>
     elems p' k = (elems p k)\<lparr>ownText := s\<rparr> \<and>
     mutations p' = mutations p @ [SetTextContent k s] \<and>
     listeners p' = listeners p \<and> next_ref p' = next_ref p"
  using assms by (simp add: updateCounter_Some) (simp add: set_textContent_def)

theorem updateCounter_frame_witness:
  "counter header_counter_closure = Some 2 \<and>
   (\<exists>p'. updateCounter header_counter_closure header_counter_page = Inr p' \<and>
      checked (elems p' 4) = True \<and> checked (elems p' 5) = True \<and>
      checked (elems p' 6) = True \<and> elems p' 5 = log_box True \<and> listeners p' = [])"
proof -
  have k: "counter header_counter_closure = Some 2"
    by (simp add: header_counter_closure_def)
  have "checked (elems header_counter_page 4) = True \<and>
     checked (elems header_counter_page 5) = True \<and>
     checked (elems header_counter_page 6) = True \<and>
     elems header_counter_page 5 = log_box True \<and> listeners header_counter_page = []"
    by (simp add: header_counter_page_def el_def log_box_def)
  then show ?thesis
    using updateCounter_changes_only_the_counter_text [OF k, of header_counter_page] k by auto
qed

text \<open>
  Claim C10. When the document already has a \<^verbatim>\<open>.selected-count\<close> element, it is the
  counter and is used as found: its class and inline styles are unchanged, nothing is
  created or appended, and the only mutation of the start-up is the writing of its text.
\<close>

theorem init_reuses_existing_counter:
  assumes "document_querySelector (ClassSel ''history-form'') p = Some f"
    and "document_querySelector (ClassSel ''selected-count'') p = Some k"
  shows "\<exists>p' c s. init p = Inr (p', Some c) \<and> counter c = Some k \<and>
     style (elems p' k) = style (elems p k) \<and>
     className (elems p' k) = className (elems p k) \<and>
     elems p' k = (elems p k)\<lparr>ownText := s\<rparr> \<and>
     mutations p' = mutations p @ [SetTextContent k s] \<and>
     tree p' = set_kids k [] (tree p) \<and>
     next_ref p' = next_ref p"
proof -
  from init_found[OF assms(1)] assms(2) obtain c p1 where
    i: "init p = Inr (p1, Some c)" and k: "counter c = Some k"
    and inst: "install_listeners c (set_textContent k (spec_counter_text (selected_count c p)) p) = Inr p1"
    by auto
  define q where "q = set_textContent k (spec_counter_text (selected_count c p)) p"
  from install_listeners_ok[of c q] inst obtain
    t: "tree p1 = tree q" and e: "elems p1 = elems q" and m: "mutations p1 = mutations q"
    and n: "next_ref p1 = next_ref q"
    by (auto simp: q_def)
  show ?thesis using i k by (simp add: t e m n) (simp add: q_def set_textContent_def)
qed

theorem init_reuses_existing_counter_witness:
  "document_querySelector (ClassSel ''history-form'') header_counter_page = Some 3 \<and>
   document_querySelector (ClassSel ''selected-count'') header_counter_page = Some 2 \<and>
   (\<exists>p' c s. init header_counter_page = Inr (p', Some c) \<and> counter c = Some 2 \<and>
      style (elems p' 2) = [(''color'', ''red'')] \<and>
      className (elems p' 2) = ''muted selected-count'' \<and>
      mutations p' = [SetTextContent 2 s] \<and>
      tree p' = Node 0 [Node 1 [Node 2 [], Node 3 [Node 4 [], Node 5 [], Node 6 []]]])"
proof -
  have f: "document_querySelector (ClassSel ''history-form'') header_counter_page = Some 3"
    by (simp add: document_querySelector_def header_counter_page_def el_def log_box_def
        class_tokens_def is_space_def)
  have k: "document_querySelector (ClassSel ''selected-count'') header_counter_page = Some 2"
    by (simp add: document_querySelector_def header_counter_page_def el_def log_box_def
        class_tokens_def is_space_def)
  have x: "style (elems header_counter_page 2) = [(''color'', ''red'')]"
    "className (elems header_counter_page 2) = ''muted selected-count''"
    "mutations header_counter_page = []"
    "set_kids 2 [] (tree header_counter_page) =
       Node 0 [Node 1 [Node 2 [], Node 3 [Node 4 [], Node 5 [], Node 6 []]]]"
    by (simp_all add: header_counter_page_def el_def)
  show ?thesis
    using init_reuses_existing_counter [OF f k] f k by (auto simp: x)
qed

end
